theory Spec2Isabelle
  imports Main
begin

section \<open>Plugins, as far as the orchestrator reads them\<close>

text \<open>
  The environment of \<^verbatim>\<open>gym_env/environment.py\<close> drives four kinds of plugins (world,
  robots, sensors, goals) whose code is outside the two modelled files. Of a plugin the model
  keeps the attributes that the orchestrator reads; what a plugin method returns at run time
  is an input of the modelled function, and every call of a plugin method is recorded, in
  order, in a list of calls. Values that only plugins produce and the orchestrator passes on
  (space descriptors, observations, logged data, execution times, positions, quaternions)
  have the type variable \<open>'v\<close>; the entries of the action vector have the type \<open>'a\<close>.

  A Python \<^verbatim>\<open>dict\<close> is a list of key-value pairs with distinct keys in insertion order.
\<close>

datatype py_error = AttributeError | IndexError | UnboundLocalError | Exception

type_synonym 'v dict = "(string \<times> 'v) list"

text \<open>\<^verbatim>\<open>d[k] = v\<close>: an existing key keeps its place and takes the new value, a new key goes last.\<close>

primrec dict_set :: "'v dict \<Rightarrow> string \<Rightarrow> 'v \<Rightarrow> 'v dict" where
  "dict_set [] k v = [(k, v)]"
| "dict_set (p # ps) k v = (if fst p = k then (k, v) # ps else p # dict_set ps k v)"

text \<open>\<^verbatim>\<open>{**d1, **d2}\<close>: the entries of \<open>d2\<close> are stored into a copy of \<open>d1\<close>, in order.\<close>

primrec dict_merge :: "'v dict \<Rightarrow> 'v dict \<Rightarrow> 'v dict" where
  "dict_merge d1 [] = d1"
| "dict_merge d1 (p # ps) = dict_merge (dict_set d1 (fst p) (snd p)) ps"

text \<open>\<^verbatim>\<open>xs[i]\<close> for an index that is not negative.\<close>

definition py_index :: "'x list \<Rightarrow> nat \<Rightarrow> py_error + 'x" where
  "py_index xs i = (if i < length xs then Inr (xs ! i) else Inl IndexError)"

text \<open>
  Sensors and goals share the attributes \<^verbatim>\<open>add_to_observation_space\<close> and
  \<^verbatim>\<open>add_to_logging\<close> and the method \<^verbatim>\<open>get_observation_space_element()\<close>, whose
  result does not change over the life of the plugin. A goal has three flags more.
\<close>

record 'v sensor =
  add_to_observation_space :: bool
  add_to_logging :: bool
  get_observation_space_element :: "'v dict"

record 'v goal = "'v sensor" +
  continue_after_success :: bool
  needs_a_position :: bool
  needs_a_rotation :: bool

text \<open>
  A robot: its name, the id that the world gives it, its goal, and the two numbers of
  \<^verbatim>\<open>get_action_space_dims()\<close>.
\<close>

record 'v robot =
  name :: string
  robot_id :: nat
  goal :: "'v goal"
  ik_dims :: nat
  joints_dims :: nat

section \<open>The world: \<^verbatim>\<open>world/world.py\<close>\<close>

record 'v world =
  robots_in_world :: "'v robot list"
  robots_with_position :: "'v robot list"
  robots_with_orientation :: "'v robot list"
  collision :: bool

text \<open>\<^verbatim>\<open>World.__init__\<close>: the three robot lists are empty and nothing collides.\<close>

definition world_init :: "'v world" where
  "world_init = \<lparr>robots_in_world = [], robots_with_position = [],
     robots_with_orientation = [], collision = False\<rparr>"

text \<open>
  The loop of \<^verbatim>\<open>register_robots\<close>, with its counter. The robot object that is appended
  to the lists is the one whose \<^verbatim>\<open>id\<close> has just been set.
\<close>

fun register_loop :: "'v world \<Rightarrow> nat \<Rightarrow> 'v robot list \<Rightarrow> 'v world" where
  "register_loop w id_counter [] = w"
| "register_loop w id_counter (r # rest) =
     (let robot = r\<lparr>robot_id := id_counter\<rparr>;
          w1 = w\<lparr>robots_in_world := robots_in_world w @ [robot]\<rparr>;
          w2 = (if needs_a_position (goal robot)
                then w1\<lparr>robots_with_position := robots_with_position w1 @ [robot]\<rparr>
                else if needs_a_rotation (goal robot)
                then w1\<lparr>robots_with_orientation := robots_with_orientation w1 @ [robot]\<rparr>
                else w1)
      in register_loop w2 (id_counter + 1) rest)"

definition register_robots :: "'v world \<Rightarrow> 'v robot list \<Rightarrow> 'v world" where
  "register_robots w robots = register_loop w 0 robots"

text \<open>The robots of a list with the ids that a registration gives them, counting from \<open>n\<close>.\<close>

fun with_ids :: "nat \<Rightarrow> 'v robot list \<Rightarrow> 'v robot list" where
  "with_ids n [] = []"
| "with_ids n (r # rest) = r\<lparr>robot_id := n\<rparr> # with_ids (n + 1) rest"

section \<open>The environment: \<^verbatim>\<open>gym_env/environment.py\<close>\<close>

text \<open>
  The calls that the environment makes to the physics engine and to the plugins. A robot,
  sensor or goal is named by its index in the environment's list.
\<close>

datatype ('a, 'v) call =
    Reset_simulation
  | World_reset
  | Robot_build nat
  | Create_ee_starting_points
  | Create_position_target
  | Create_rotation_target
  | World_build
  | Moveto_xyz nat 'v
  | Moveto_xyzquat nat 'v 'v
  | Perform_collision_check
  | Sensor_reset nat
  | On_env_reset nat "bool list"
  | World_build_visual_aux
  | Goal_build_visual_aux nat
  | Sensor_get_observation nat
  | Goal_get_observation nat
  | World_update
  | Process_action nat "'a list"
  | Sensor_update nat
  | Goal_reward nat nat
  | Sensor_get_data_for_logging nat
  | Goal_get_data_for_logging nat

text \<open>
  The values of the \<^verbatim>\<open>info\<close> dictionary. \<^verbatim>\<open>np.average\<close> of a stat buffer is kept
  as the buffer it averages, and the two clocks (\<^verbatim>\<open>sim_time\<close>, \<^verbatim>\<open>cpu_time\<close>) carry no
  value: floating-point numbers are outside the model, and so are the rewards.
\<close>

datatype 'v info_value = Bool_val bool | Int_val nat | Average_of "bool list" | Clock_val
  | Plugin_val 'v

text \<open>
  The attributes of \<^verbatim>\<open>ModularDRLEnv\<close> that carry no floating-point number.
  \<^verbatim>\<open>active_robots\<close> does not exist before the first \<^verbatim>\<open>reset()\<close>: it is \<open>None\<close> then.
  \<^verbatim>\<open>observation_space\<close> is the dictionary \<^verbatim>\<open>observation_space_dict\<close> that line 165
  hands to \<^verbatim>\<open>gym.spaces.Dict\<close>, in the order in which lines 157 to 163 fill it; the
  order in which that library keeps the keys is outside the two files, and the statements
  about the observation space below are read by key. \<^verbatim>\<open>action_space\<close> is the length of
  the action vector, the shape of the \<^verbatim>\<open>Box\<close> of line 179.
\<close>

record 'v env =
  logging :: int
  show_auxillary_geometry_world :: bool
  show_auxillary_geometry_goal :: bool
  stat_buffer_size :: nat
  steps_current_episode :: nat
  log :: "'v info_value dict list"
  success_stat :: "bool list"
  out_of_bounds_stat :: "bool list"
  timeout_stat :: "bool list"
  collision_stat :: "bool list"
  world :: "'v world"
  robots :: "'v robot list"
  sensors :: "'v sensor list"
  goals :: "'v goal list"
  joint_control :: "bool list"
  observation_space :: "'v dict"
  action_space_dims :: "nat list"
  action_space :: nat
  active_robots :: "bool list option"

subsection \<open>Construction\<close>

text \<open>
  \<^verbatim>\<open>__init__\<close> builds one robot, three sensors and one goal by hand where a parser of the
  configuration is announced; its loops run over the lists whatever they hold. The model takes
  the lists (and the list \<^verbatim>\<open>joint_control\<close>, one flag per robot) as arguments.
\<close>

record env_config =
  config_logging :: int
  config_display_extra :: bool

text \<open>
  Lines 157 to 163: the loop that merges the space descriptors of the plugins that opt in.
  It is run on the sensors and then, from its result, on the goals.
\<close>

fun space_loop :: "'v dict \<Rightarrow> ('v, 'm) sensor_scheme list \<Rightarrow> 'v dict" where
  "space_loop observation_space_dict [] = observation_space_dict"
| "space_loop observation_space_dict (p # ps) =
     space_loop (if add_to_observation_space p
                 then dict_merge observation_space_dict (get_observation_space_element p)
                 else observation_space_dict) ps"

definition compose_observation_space :: "'v sensor list \<Rightarrow> 'v goal list \<Rightarrow> 'v dict" where
  "compose_observation_space ss gs = space_loop (space_loop [] ss) gs"

text \<open>Lines 171 to 177: one selected dimensionality per robot.\<close>

fun dims_loop :: "bool list \<Rightarrow> nat \<Rightarrow> 'v robot list \<Rightarrow> nat list \<Rightarrow> py_error + nat list" where
  "dims_loop jc idx [] dims = Inr dims"
| "dims_loop jc idx (r # rest) dims =
     (case py_index jc idx of
        Inl err \<Rightarrow> Inl err
      | Inr j \<Rightarrow> dims_loop jc (idx + 1) rest (dims @ [if j then joints_dims r else ik_dims r]))"

definition env_init ::
  "env_config \<Rightarrow> bool list \<Rightarrow> 'v robot list \<Rightarrow> 'v sensor list \<Rightarrow> 'v goal list
     \<Rightarrow> py_error + 'v env" where
  "env_init config jc rs ss gs =
     (let w = register_robots world_init rs in
      case dims_loop jc 0 (robots_in_world w) [] of
        Inl err \<Rightarrow> Inl err
      | Inr dims \<Rightarrow> Inr \<lparr>
          logging = config_logging config,
          show_auxillary_geometry_world = config_display_extra config,
          show_auxillary_geometry_goal = config_display_extra config,
          stat_buffer_size = 25,
          steps_current_episode = 0,
          log = [],
          success_stat = [False],
          out_of_bounds_stat = [False],
          timeout_stat = [False],
          collision_stat = [False],
          world = w,
          robots = robots_in_world w,
          sensors = ss,
          goals = gs,
          joint_control = jc,
          observation_space = compose_observation_space ss gs,
          action_space_dims = dims,
          action_space = sum_list dims,
          active_robots = None\<rparr>)"

subsection \<open>Reading the observation\<close>

text \<open>
  What the plugins answer when asked for their observation: one dictionary per sensor and
  per goal, by index.
\<close>

record 'v obs_in =
  sensor_observation :: "nat \<Rightarrow> 'v dict"
  goal_observation :: "nat \<Rightarrow> 'v dict"

text \<open>
  The loop of \<^verbatim>\<open>_get_obs\<close> (and of the logging part of \<^verbatim>\<open>step\<close>): the plugins that
  opt in are asked in order and their answers merged.
\<close>

fun merge_loop ::
  "('p \<Rightarrow> bool) \<Rightarrow> (nat \<Rightarrow> 'w dict) \<Rightarrow> (nat \<Rightarrow> ('a, 'v) call) \<Rightarrow> nat \<Rightarrow> 'p list \<Rightarrow> 'w dict
     \<Rightarrow> ('a, 'v) call list \<Rightarrow> 'w dict \<times> ('a, 'v) call list" where
  "merge_loop opt answer ev idx [] d tr = (d, tr)"
| "merge_loop opt answer ev idx (p # ps) d tr =
     (if opt p
      then merge_loop opt answer ev (idx + 1) ps (dict_merge d (answer idx)) (tr @ [ev idx])
      else merge_loop opt answer ev (idx + 1) ps d tr)"

definition get_obs ::
  "'v env \<Rightarrow> ('v, 'm) obs_in_scheme \<Rightarrow> ('a, 'v) call list \<Rightarrow> 'v dict \<times> ('a, 'v) call list" where
  "get_obs e inp tr =
     (case merge_loop add_to_observation_space (sensor_observation inp) Sensor_get_observation
             0 (sensors e) [] tr of
        (obs_dict, tr1) \<Rightarrow>
          merge_loop add_to_observation_space (goal_observation inp) Goal_get_observation
             0 (goals e) obs_dict tr1)"

subsection \<open>\<^verbatim>\<open>reset\<close>\<close>

text \<open>
  What the world answers in the attempt that runs with a given value of
  \<^verbatim>\<open>reset_count\<close>: the list of starting points (a pair of an optional position and an
  optional quaternion per entry) and the flag that the collision check leaves in
  \<^verbatim>\<open>world.collision\<close>. The contact queries that decide the flag belong to the physics
  engine.
\<close>

record 'v reset_in = "'v obs_in" +
  ee_starting_points :: "nat \<Rightarrow> ('v option \<times> 'v option) list"
  collides_at :: "nat \<Rightarrow> bool"

text \<open>Lines 224 to 232.\<close>

fun teleport_loop ::
  "'v robot list \<Rightarrow> nat \<Rightarrow> ('v option \<times> 'v option) list \<Rightarrow> ('a, 'v) call list
     \<Rightarrow> (py_error \<times> ('a, 'v) call list) + ('a, 'v) call list" where
  "teleport_loop rs idx [] tr = Inr tr"
| "teleport_loop rs idx (ee_pos # rest) tr =
     (case fst ee_pos of
        None \<Rightarrow> teleport_loop rs (idx + 1) rest tr
      | Some p \<Rightarrow>
          if idx < length rs
          then (case snd ee_pos of
                  None \<Rightarrow> teleport_loop rs (idx + 1) rest (tr @ [Moveto_xyz idx p])
                | Some q \<Rightarrow> teleport_loop rs (idx + 1) rest (tr @ [Moveto_xyzquat idx p q]))
          else Inl (IndexError, tr))"

text \<open>Lines 203 to 235: the body of the loop up to the collision check.\<close>

definition attempt ::
  "'v env \<Rightarrow> 'v reset_in \<Rightarrow> nat \<Rightarrow> ('a, 'v) call list
     \<Rightarrow> (py_error \<times> ('a, 'v) call list) + ('a, 'v) call list" where
  "attempt e inp reset_count tr =
     (case teleport_loop (robots e) 0 (ee_starting_points inp reset_count)
             (tr @ [Reset_simulation, World_reset]
                 @ map Robot_build [0..<length (robots e)]
                 @ [Create_ee_starting_points, Create_position_target, Create_rotation_target,
                    World_build]) of
        Inl err \<Rightarrow> Inl err
      | Inr tr1 \<Rightarrow> Inr (tr1 @ [Perform_collision_check]))"

text \<open>Lines 198 to 239. The result is the final \<^verbatim>\<open>reset_count\<close> and the calls made.\<close>

function reset_loop ::
  "'v env \<Rightarrow> 'v reset_in \<Rightarrow> nat \<Rightarrow> ('a, 'v) call list
     \<Rightarrow> (py_error \<times> ('a, 'v) call list) + (nat \<times> ('a, 'v) call list)" where
  "reset_loop e inp reset_count tr =
     (if reset_count > 1000 then Inl (Exception, tr)
      else case attempt e inp reset_count tr of
             Inl err \<Rightarrow> Inl err
           | Inr tr1 \<Rightarrow>
               if \<not> collides_at inp reset_count then Inr (reset_count, tr1)
               else reset_loop e inp (reset_count + 1) tr1)"
  by pat_completeness auto
termination
  by (relation "measure (\<lambda>(e, inp, reset_count, tr). 1001 - reset_count)") auto

definition reset ::
  "'v env \<Rightarrow> 'v reset_in
     \<Rightarrow> (py_error \<times> ('a, 'v) call list) + ('v env \<times> 'v dict \<times> ('a, 'v) call list)" where
  "reset e inp =
     (case reset_loop e inp 0 [] of
        Inl err \<Rightarrow> Inl err
      | Inr (reset_count, tr) \<Rightarrow>
          let e1 = e\<lparr>steps_current_episode := 0, log := [],
                     world := (world e)\<lparr>collision := False\<rparr>,
                     active_robots := Some (map (\<lambda>robot. True) (robots e))\<rparr>;
              tr1 = tr @ map Sensor_reset [0..<length (sensors e)]
                       @ map (\<lambda>i. On_env_reset i (success_stat e)) [0..<length (goals e)]
                       @ (if show_auxillary_geometry_world e then [World_build_visual_aux] else [])
                       @ (if show_auxillary_geometry_goal e
                          then map Goal_build_visual_aux [0..<length (goals e)] else [])
          in case get_obs e1 inp tr1 of (obs_dict, tr2) \<Rightarrow> Inr (e1, obs_dict, tr2))"

subsection \<open>\<^verbatim>\<open>step\<close>\<close>

text \<open>The last four entries of the tuple that \<^verbatim>\<open>goal.reward\<close> returns.\<close>

record reward_info =
  goal_success :: bool
  goal_done :: bool
  goal_timeout :: bool
  goal_oob :: bool

text \<open>
  What the plugins answer during one step: the execution time that \<^verbatim>\<open>process_action\<close>
  of a robot returns for a slice, the flag that the collision check leaves in
  \<^verbatim>\<open>world.collision\<close>, the tuple of each goal, and the logging dictionaries.
\<close>

record ('a, 'v) step_in = "'v obs_in" +
  exec_time :: "nat \<Rightarrow> 'a list \<Rightarrow> 'v"
  collides :: bool
  reward_reply :: "nat \<Rightarrow> reward_info"
  sensor_log :: "nat \<Rightarrow> 'v dict"
  goal_log :: "nat \<Rightarrow> 'v dict"

text \<open>
  Lines 288 to 296. The slice \<^verbatim>\<open>action[offset : dims + offset]\<close> of a flat array is cut
  short at the end of the array. An inactive robot leaves the loop body at \<^verbatim>\<open>continue\<close>,
  before the offset is advanced and before anything is appended to the execution times.
\<close>

fun action_loop ::
  "bool list option \<Rightarrow> nat list \<Rightarrow> 'a list \<Rightarrow> (nat \<Rightarrow> 'a list \<Rightarrow> 'v) \<Rightarrow> nat \<Rightarrow> 'r list \<Rightarrow> nat
     \<Rightarrow> 'v list \<Rightarrow> ('a, 'v) call list
     \<Rightarrow> (py_error \<times> ('a, 'v) call list) + ('v list \<times> ('a, 'v) call list)" where
  "action_loop act dims action ex idx [] offset exec_times_cpu tr = Inr (exec_times_cpu, tr)"
| "action_loop act dims action ex idx (robot # rest) offset exec_times_cpu tr =
     (case act of
        None \<Rightarrow> Inl (AttributeError, tr)
      | Some a \<Rightarrow>
          if \<not> idx < length a then Inl (IndexError, tr)
          else if \<not> a ! idx
          then action_loop act dims action ex (idx + 1) rest offset exec_times_cpu tr
          else if \<not> idx < length dims then Inl (IndexError, tr)
          else let current_robot_action = take (dims ! idx) (drop offset action)
               in action_loop act dims action ex (idx + 1) rest (offset + dims ! idx)
                    (exec_times_cpu @ [ex idx current_robot_action])
                    (tr @ [Process_action idx current_robot_action]))"

text \<open>
  Lines 311 to 320. The flag that is cleared is the one at the index of the goal:
  goal \<open>idx\<close> is the goal of robot \<open>idx\<close>.
\<close>

fun reward_loop ::
  "(nat \<Rightarrow> reward_info) \<Rightarrow> nat \<Rightarrow> nat \<Rightarrow> 'v goal list \<Rightarrow> bool list option \<Rightarrow> reward_info list
     \<Rightarrow> ('a, 'v) call list
     \<Rightarrow> (py_error \<times> ('a, 'v) call list)
         + (bool list option \<times> reward_info list \<times> ('a, 'v) call list)" where
  "reward_loop answer steps idx [] act infos tr = Inr (act, infos, tr)"
| "reward_loop answer steps idx (g # rest) act infos tr =
     (let reward_info = answer idx; tr1 = tr @ [Goal_reward idx steps] in
      if goal_success reward_info \<and> \<not> continue_after_success g
      then (case act of
              None \<Rightarrow> Inl (AttributeError, tr1)
            | Some a \<Rightarrow>
                if idx < length a
                then reward_loop answer steps (idx + 1) rest (Some (a[idx := False]))
                       (infos @ [reward_info]) tr1
                else Inl (IndexError, tr1))
      else reward_loop answer steps (idx + 1) rest act (infos @ [reward_info]) tr1)"

primrec np_any :: "bool list \<Rightarrow> bool" where
  "np_any [] = False"
| "np_any (x # xs) = (x \<or> np_any xs)"

primrec np_all :: "bool list \<Rightarrow> bool" where
  "np_all [] = True"
| "np_all (x # xs) = (x \<and> np_all xs)"

text \<open>Lines 344 to 346 and their three copies: append, then drop the first entry if too long.\<close>

definition stat_append :: "nat \<Rightarrow> bool list \<Rightarrow> bool \<Rightarrow> bool list" where
  "stat_append size_limit stat x =
     (let stat1 = stat @ [x] in if length stat1 > size_limit then tl stat1 else stat1)"

text \<open>Lines 373 and 374.\<close>

fun exec_time_loop ::
  "'v list \<Rightarrow> nat \<Rightarrow> 'v robot list \<Rightarrow> 'v info_value dict \<Rightarrow> py_error + 'v info_value dict" where
  "exec_time_loop exec_times_cpu idx [] info = Inr info"
| "exec_time_loop exec_times_cpu idx (robot # rest) info =
     (if idx < length exec_times_cpu
      then exec_time_loop exec_times_cpu (idx + 1) rest
             (dict_set info (''action_cpu_time_'' @ name robot)
                (Plugin_val (exec_times_cpu ! idx)))
      else Inl IndexError)"

definition plugin_dict :: "'v dict \<Rightarrow> 'v info_value dict" where
  "plugin_dict d = map (\<lambda>p. (fst p, Plugin_val (snd p))) d"

text \<open>
  Lines 357 to 384: the \<^verbatim>\<open>info\<close> dictionary, appended to the log when there is logging.
  With a logging mode other than 0, 1 and 2 the name \<^verbatim>\<open>info\<close> is never bound (the
  result \<open>None\<close>); the \<^verbatim>\<open>return\<close> statement fails on it, after it has read the
  observation.
\<close>

definition build_info ::
  "'v env \<Rightarrow> ('a, 'v) step_in \<Rightarrow> bool \<Rightarrow> 'v list \<Rightarrow> ('a, 'v) call list
     \<Rightarrow> (py_error \<times> ('a, 'v) call list)
         + ('v env \<times> 'v info_value dict option \<times> ('a, 'v) call list)" where
  "build_info e inp is_success exec_times_cpu tr =
     (if logging e = 1 \<or> logging e = 2
      then (case exec_time_loop exec_times_cpu 0 (robots e)
                   [(''is_success'', Bool_val is_success),
                    (''step'', Int_val (steps_current_episode e)),
                    (''success_rate'', Average_of (success_stat e)),
                    (''out_of_bounds_rate'', Average_of (out_of_bounds_stat e)),
                    (''timeout_rate'', Average_of (timeout_stat e)),
                    (''collision_rate'', Average_of (collision_stat e)),
                    (''sim_time'', Clock_val),
                    (''cpu_time'', Clock_val)] of
              Inl err \<Rightarrow> Inl (err, tr)
            | Inr info \<Rightarrow>
                (case merge_loop add_to_logging (\<lambda>i. plugin_dict (sensor_log inp i))
                        Sensor_get_data_for_logging 0 (sensors e) info tr of
                   (info1, tr1) \<Rightarrow>
                     (case merge_loop add_to_logging (\<lambda>i. plugin_dict (goal_log inp i))
                             Goal_get_data_for_logging 0 (goals e) info1 tr1 of
                        (info2, tr2) \<Rightarrow>
                          Inr (e\<lparr>log := log e @ [info2]\<rparr>, Some info2, tr2))))
      else if logging e = 0 then Inr (e, Some [], tr)
      else Inr (e, None, tr))"

text \<open>
  Lines 322 to 355 without the reward and the clocks: the flags of the environment from those
  of the goals and the world, the step counter, and the stat buffers, which take an entry when
  the episode is done. The result is the new state with \<^verbatim>\<open>done\<close> and \<^verbatim>\<open>is_success\<close>.
\<close>

definition update_tracking ::
  "'v env \<Rightarrow> bool \<Rightarrow> bool list option \<Rightarrow> reward_info list \<Rightarrow> 'v env \<times> bool \<times> bool" where
  "update_tracking e col act infos =
     (let done = (np_any (map goal_done infos) \<or> col);
          is_success = np_all (map goal_success infos);
          timeout = np_any (map goal_timeout infos);
          out_of_bounds = np_any (map goal_oob infos);
          e1 = e\<lparr>world := (world e)\<lparr>collision := col\<rparr>,
                 active_robots := act,
                 steps_current_episode := steps_current_episode e + 1\<rparr>;
          e2 = (if done
                then e1\<lparr>success_stat :=
                          stat_append (stat_buffer_size e) (success_stat e) is_success,
                        timeout_stat :=
                          stat_append (stat_buffer_size e) (timeout_stat e) timeout,
                        out_of_bounds_stat :=
                          stat_append (stat_buffer_size e) (out_of_bounds_stat e) out_of_bounds,
                        collision_stat :=
                          stat_append (stat_buffer_size e) (collision_stat e) col\<rparr>
                else e1)
      in (e2, done, is_success))"

record 'v step_out =
  out_obs :: "'v dict"
  out_done :: bool
  out_info :: "'v info_value dict"

text \<open>
  \<^verbatim>\<open>step\<close>, lines 279 to 398, without the reward, the clocks and the printing of the log.
  The flags of the active robots are cleared in the loop over the goals; the model stores the
  list that the loop returns.
\<close>

definition step ::
  "'v env \<Rightarrow> 'a list \<Rightarrow> ('a, 'v) step_in
     \<Rightarrow> (py_error \<times> ('a, 'v) call list) + ('v env \<times> 'v step_out \<times> ('a, 'v) call list)" where
  "step e action inp =
     (case action_loop (active_robots e) (action_space_dims e) action (exec_time inp)
             0 (robots e) 0 [] [World_update] of
        Inl err \<Rightarrow> Inl err
      | Inr (exec_times_cpu, tr1) \<Rightarrow>
          (case reward_loop (reward_reply inp) (steps_current_episode e) 0 (goals e)
                  (active_robots e) []
                  (tr1 @ map Sensor_update [0..<length (sensors e)] @ [Perform_collision_check]) of
             Inl err \<Rightarrow> Inl err
           | Inr (act, infos, tr2) \<Rightarrow>
               (case update_tracking e (collides inp) act infos of
                  (e2, done, is_success) \<Rightarrow>
                    (case build_info e2 inp is_success exec_times_cpu tr2 of
                       Inl err \<Rightarrow> Inl err
                     | Inr (e3, info, tr3) \<Rightarrow>
                         (case get_obs e3 inp tr3 of
                            (obs_dict, tr4) \<Rightarrow>
                              (case info of
                                 None \<Rightarrow> Inl (UnboundLocalError, tr4)
                               | Some i \<Rightarrow>
                                   Inr (e3, \<lparr>out_obs = obs_dict, out_done = done,
                                             out_info = i\<rparr>, tr4)))))))"

subsection \<open>Sequences of calls\<close>

text \<open>
  A caller resets and steps the environment in any order. A call that raises ends the
  sequence. The result is the last state and the \<^verbatim>\<open>done\<close> flags that the steps returned,
  first to last.
\<close>

datatype ('a, 'v) op = Reset "'v reset_in" | Step "'a list" "('a, 'v) step_in"

fun run ::
  "'v env \<Rightarrow> bool list \<Rightarrow> ('a, 'v) op list \<Rightarrow> (py_error \<times> ('a, 'v) call list) + ('v env \<times> bool list)"
  where
  "run e dones [] = Inr (e, dones)"
| "run e dones (Reset inp # ops) =
     (case reset e inp of
        Inl err \<Rightarrow> Inl err
      | Inr (e1, obs_dict, tr :: ('a, 'v) call list) \<Rightarrow> run e1 dones ops)"
| "run e dones (Step action inp # ops) =
     (case step e action inp of
        Inl err \<Rightarrow> Inl err
      | Inr (e1, out, tr) \<Rightarrow> run e1 (dones @ [out_done out]) ops)"

text \<open>
  An episode after its reset: steps only. The result is the last state and all the calls made.
\<close>

fun steps ::
  "'v env \<Rightarrow> ('a list \<times> ('a, 'v) step_in) list \<Rightarrow> ('a, 'v) call list
     \<Rightarrow> (py_error \<times> ('a, 'v) call list) + ('v env \<times> ('a, 'v) call list)" where
  "steps e [] tr = Inr (e, tr)"
| "steps e (ai # rest) tr =
     (case step e (fst ai) (snd ai) of
        Inl err \<Rightarrow> Inl (fst err, tr @ snd err)
      | Inr (e1, out, tr1) \<Rightarrow> steps e1 rest (tr @ tr1))"

section \<open>A small configuration\<close>

text \<open>
  Two robots with one goal each and two sensors, used where a statement is evaluated on a
  concrete input. The goals stop their robot on success, as the goal that \<^verbatim>\<open>__init__\<close>
  builds does; the first robot is steered in the space of the inverse kinematics (4 values),
  the second by its joints (6 values).
\<close>

definition example_goal :: "nat goal" where
  "example_goal = \<lparr>add_to_observation_space = True, add_to_logging = True,
     get_observation_space_element = [(''distance'', 3)],
     continue_after_success = False, needs_a_position = True, needs_a_rotation = False\<rparr>"

definition example_robot :: "string \<Rightarrow> nat robot" where
  "example_robot n =
     \<lparr>name = n, robot_id = 1, goal = example_goal, ik_dims = 4, joints_dims = 6\<rparr>"

definition example_sensor :: "string \<Rightarrow> nat \<Rightarrow> nat sensor" where
  "example_sensor k v = \<lparr>add_to_observation_space = True, add_to_logging = False,
     get_observation_space_element = [(k, v)]\<rparr>"

definition example_config :: env_config where
  "example_config = \<lparr>config_logging = 1, config_display_extra = False\<rparr>"

text \<open>
  A world that asks for a position of the first robot and for nothing of the second, and
  whose attempts all collide or all succeed.
\<close>

definition example_reset_in :: "bool \<Rightarrow> nat reset_in" where
  "example_reset_in c = \<lparr>sensor_observation = (\<lambda>i. []), goal_observation = (\<lambda>i. []),
     ee_starting_points = (\<lambda>n. [(Some 5, None), (None, None)]), collides_at = (\<lambda>n. c)\<rparr>"

text \<open>
  A step in which nothing collides and no goal is done; the goal of the first robot reports
  success if the flag is set. Robot \<open>i\<close> reports the execution time \<open>100 + i\<close>.
\<close>

definition example_step_in :: "bool \<Rightarrow> (nat, nat) step_in" where
  "example_step_in b = \<lparr>sensor_observation = (\<lambda>i. []), goal_observation = (\<lambda>i. []),
     exec_time = (\<lambda>i s. 100 + i), collides = False,
     reward_reply = (\<lambda>i. \<lparr>goal_success = (b \<and> i = 0), goal_done = False,
                           goal_timeout = False, goal_oob = False\<rparr>),
     sensor_log = (\<lambda>i. []), goal_log = (\<lambda>i. [])\<rparr>"

text \<open>The environment that \<^verbatim>\<open>__init__\<close> builds from these (lemma \<open>example_env_init\<close>).\<close>

definition example_env :: "nat env" where
  "example_env = \<lparr>
     logging = 1,
     show_auxillary_geometry_world = False,
     show_auxillary_geometry_goal = False,
     stat_buffer_size = 25,
     steps_current_episode = 0,
     log = [],
     success_stat = [False],
     out_of_bounds_stat = [False],
     timeout_stat = [False],
     collision_stat = [False],
     world = register_robots world_init [example_robot ''ur5_1'', example_robot ''ur5_2''],
     robots = with_ids 0 [example_robot ''ur5_1'', example_robot ''ur5_2''],
     sensors = [example_sensor ''joints'' 1, example_sensor ''joints'' 2],
     goals = [example_goal, example_goal],
     joint_control = [False, True],
     observation_space = [(''joints'', 2), (''distance'', 3)],
     action_space_dims = [4, 6],
     action_space = 10,
     active_robots = None\<rparr>"

text \<open>The calls of \<^verbatim>\<open>process_action\<close> among a list of calls.\<close>

fun is_process_action :: "('a, 'v) call \<Rightarrow> bool" where
  "is_process_action (Process_action idx slice) = True"
| "is_process_action c = False"

text \<open>The calls made by a function that returned or raised.\<close>

definition calls_made :: "('e \<times> 'c list) + ('r \<times> 'c list) \<Rightarrow> 'c list" where
  "calls_made r = (case r of Inl (err, tr) \<Rightarrow> tr | Inr (x, tr) \<Rightarrow> tr)"

definition step_calls :: "('e \<times> 'c list) + ('r \<times> 's \<times> 'c list) \<Rightarrow> 'c list" where
  "step_calls r = (case r of Inl (err, tr) \<Rightarrow> tr | Inr (x, y, tr) \<Rightarrow> tr)"

text \<open>
  The teleport calls that a list of starting points asks for, the first entry being that of
  robot \<open>idx\<close>: none for an entry without position, \<^verbatim>\<open>moveto_xyz\<close> for a position
  alone, \<^verbatim>\<open>moveto_xyzquat\<close> for a position and a quaternion.
\<close>

fun teleport_calls :: "nat \<Rightarrow> ('v option \<times> 'v option) list \<Rightarrow> ('a, 'v) call list" where
  "teleport_calls idx [] = []"
| "teleport_calls idx ((None, q) # rest) = teleport_calls (idx + 1) rest"
| "teleport_calls idx ((Some p, None) # rest) = Moveto_xyz idx p # teleport_calls (idx + 1) rest"
| "teleport_calls idx ((Some p, Some q) # rest) =
     Moveto_xyzquat idx p q # teleport_calls (idx + 1) rest"

section \<open>Registration of robots\<close>

lemma register_loop_in_world:
  "robots_in_world (register_loop w n rs) = robots_in_world w @ with_ids n rs"
  by (induction rs arbitrary: w n) (simp_all add: Let_def)

lemma register_loop_position:
  "robots_with_position (register_loop w n rs) =
     robots_with_position w @ filter (\<lambda>r. needs_a_position (goal r)) (with_ids n rs)"
  by (induction rs arbitrary: w n) (simp_all add: Let_def)

lemma register_loop_orientation:
  "robots_with_orientation (register_loop w n rs) =
     robots_with_orientation w @
       filter (\<lambda>r. needs_a_rotation (goal r) \<and> \<not> needs_a_position (goal r)) (with_ids n rs)"
  by (induction rs arbitrary: w n) (simp_all add: Let_def)

text \<open>
  Claim C10. A call of \<^verbatim>\<open>register_robots\<close> appends to the position-needing list exactly
  the registered robots whose goal needs a position, and to the rotation-needing list exactly
  those whose goal needs a rotation and no position: a robot whose goal needs both goes to the
  position list only. On a freshly constructed world the two lists share no robot.
\<close>

theorem register_robots_partition:
  "robots_with_position (register_robots w rs) =
     robots_with_position w @ filter (\<lambda>r. needs_a_position (goal r)) (with_ids 0 rs)
   \<and> robots_with_orientation (register_robots w rs) =
     robots_with_orientation w @
       filter (\<lambda>r. needs_a_rotation (goal r) \<and> \<not> needs_a_position (goal r)) (with_ids 0 rs)
   \<and> set (robots_with_position (register_robots world_init rs))
       \<inter> set (robots_with_orientation (register_robots world_init rs)) = {}"
proof -
  have "set (filter (\<lambda>r. needs_a_position (goal r)) (with_ids 0 rs))
      \<inter> set (filter (\<lambda>r. needs_a_rotation (goal r) \<and> \<not> needs_a_position (goal r))
          (with_ids 0 rs)) = {}"
    by auto
  then show ?thesis
    by (simp add: register_robots_def register_loop_position register_loop_orientation
        world_init_def)
qed

section \<open>The example configuration\<close>

lemmas example_defs = example_env_def example_config_def example_robot_def example_goal_def
  example_sensor_def example_reset_in_def example_step_in_def

lemma example_env_init:
  "env_init example_config [False, True] [example_robot ''ur5_1'', example_robot ''ur5_2'']
     [example_sensor ''joints'' 1, example_sensor ''joints'' 2] [example_goal, example_goal]
   = Inr example_env"
  by (simp add: env_init_def example_defs register_robots_def Let_def py_index_def
      world_init_def compose_observation_space_def)

section \<open>Slices of the action vector\<close>

text \<open>
  Claim C1, evaluated where it fails. Both robots are active after a reset and the action
  vector is \<open>[0, ..., 9]\<close>. In the first step the second robot gets the slice \<open>[4, ..., 9]\<close>
  and the goal of the first robot reports success, which deactivates the first robot. In the
  second step the second robot gets \<open>[0, ..., 5]\<close>: the offset was not advanced over the
  inactive robot. The claim asks for \<open>[4, ..., 9]\<close> in both steps.
\<close>

theorem slice_after_inactive_robot:
  "(case steps (example_env\<lparr>logging := 0, active_robots := Some [True, True]\<rparr>)
           [([0, 1, 2, 3, 4, 5, 6, 7, 8, 9], example_step_in True),
            ([0, 1, 2, 3, 4, 5, 6, 7, 8, 9], example_step_in False)] [] of
      Inl err \<Rightarrow> []
    | Inr (e, tr) \<Rightarrow> filter is_process_action tr)
   = [Process_action 0 [0, 1, 2, 3], Process_action 1 [4, 5, 6, 7, 8, 9],
      Process_action 1 [0, 1, 2, 3, 4, 5]]"
  by (simp add: step_def update_tracking_def example_defs build_info_def get_obs_def Let_def)

section \<open>Execution times in the info dictionary\<close>

text \<open>
  Claim C9, evaluated where it fails. Logging is on and both robots are active after a reset.
  The first step returns; in it the goal of the first robot reports success, which deactivates
  the first robot. In the second step only the second robot's execution time is collected, and
  the loop that fills the info dictionary reads the collected times by robot index: it fails
  at the second robot. The step raises \<^verbatim>\<open>IndexError\<close> after the goals were asked and
  returns no info at all, where the claim asks for one entry per registered robot.
\<close>

theorem info_with_inactive_robot:
  "steps (example_env\<lparr>active_robots := Some [True, True]\<rparr>)
     [([0, 1, 2, 3, 4, 5, 6, 7, 8, 9], example_step_in True),
      ([0, 1, 2, 3, 4, 5, 6, 7, 8, 9], example_step_in False)] []
   = Inl (IndexError,
       [World_update, Process_action 0 [0, 1, 2, 3], Process_action 1 [4, 5, 6, 7, 8, 9],
        Sensor_update 0, Sensor_update 1, Perform_collision_check, Goal_reward 0 0,
        Goal_reward 1 0, Goal_get_data_for_logging 0, Goal_get_data_for_logging 1,
        Sensor_get_observation 0, Sensor_get_observation 1, Goal_get_observation 0,
        Goal_get_observation 1,
        World_update, Process_action 1 [0, 1, 2, 3, 4, 5], Sensor_update 0, Sensor_update 1,
        Perform_collision_check, Goal_reward 0 1, Goal_reward 1 1])"
  by (simp add: step_def update_tracking_def example_defs build_info_def get_obs_def Let_def)

section \<open>Dictionaries\<close>

lemma map_of_dict_set: "map_of (dict_set d k v) = (map_of d)(k \<mapsto> v)"
  by (induction d) auto

lemma map_of_dict_merge: "map_of (dict_merge d1 d2) = map_of d1 ++ map_of (rev d2)"
proof (induction d2 arbitrary: d1)
  case Nil
  then show ?case by simp
next
  case (Cons p ps)
  show ?case
    by (simp add: Cons.IH map_of_dict_set) (rule ext, simp add: map_add_def split: option.splits)
qed

section \<open>Composition of the observation space\<close>

lemma space_loop_skip:
  "\<forall>q\<in>set ps. add_to_observation_space q \<longrightarrow> k \<notin> fst ` set (get_observation_space_element q)
   \<Longrightarrow> map_of (space_loop d ps) k = map_of d k"
proof (induction ps arbitrary: d)
  case Nil
  then show ?case by simp
next
  case (Cons p ps)
  have "map_of (rev (get_observation_space_element p)) k = None"
    if "add_to_observation_space p"
    using that Cons.prems by (simp add: map_of_eq_None_iff)
  then show ?case
    using Cons by (simp add: map_of_dict_merge map_add_def)
qed

lemma space_loop_append: "space_loop d (ps @ qs) = space_loop (space_loop d ps) qs"
  by (induction ps arbitrary: d) simp_all

lemma space_loop_last:
  assumes "add_to_observation_space p"
    and "(k, v) \<in> set (get_observation_space_element p)"
    and "distinct (map fst (get_observation_space_element p))"
    and "\<forall>q\<in>set ps2. add_to_observation_space q \<longrightarrow> k \<notin> fst ` set (get_observation_space_element q)"
  shows "map_of (space_loop d (ps1 @ p # ps2)) k = Some v"
proof -
  have "map_of (rev (get_observation_space_element p)) k = Some v"
    using assms(2,3) by (simp add: distinct_rev rev_map [symmetric])
  then show ?thesis
    using assms(1,4) by (simp add: space_loop_append space_loop_skip map_of_dict_merge)
qed

text \<open>
  Claim C4 fails: two sensors that both contribute the key \<open>joints\<close> are composed without
  an error, and the descriptor of the second (\<open>2\<close>) has replaced that of the first (\<open>1\<close>):
  it is what the key \<open>joints\<close> holds.
\<close>

theorem key_collision_overwrites:
  "(case env_init example_config [False] [example_robot ''ur5_1'']
           [example_sensor ''joints'' 1, example_sensor ''joints'' 2] [example_goal] of
      Inl err \<Rightarrow> None
    | Inr e \<Rightarrow> Some (observation_space e))
   = Some [(''joints'', 2), (''distance'', 3)]
   \<and> (case env_init example_config [False] [example_robot ''ur5_1'']
           [example_sensor ''joints'' 1, example_sensor ''joints'' 2] [example_goal] of
      Inl err \<Rightarrow> None
    | Inr e \<Rightarrow> Some (map_of (observation_space e) ''joints''))
   = Some (Some 2)"
  by (simp add: env_init_def example_defs register_robots_def Let_def py_index_def
      world_init_def compose_observation_space_def)

text \<open>
  Claim C4, as the code has it. The sensors and goals never make the construction fail: it
  fails exactly when it fails without any of them, and otherwise the observation space is the
  composition. In the composition a key holds the descriptor of the last plugin that opts in
  and contributes the key, whatever the plugins before it contribute: a later plugin silently
  overwrites an earlier one.
\<close>

theorem observation_key_later_wins:
  "map_sum id observation_space (env_init config jc rs ss gs)
     = map_sum id (\<lambda>e. compose_observation_space ss gs) (env_init config jc rs [] [])
   \<and> (add_to_observation_space p \<and> (k, v) \<in> set (get_observation_space_element p)
        \<and> distinct (map fst (get_observation_space_element p))
        \<and> (\<forall>q\<in>set ss2. add_to_observation_space q
               \<longrightarrow> k \<notin> fst ` set (get_observation_space_element q))
        \<and> (\<forall>q\<in>set gs. add_to_observation_space q
               \<longrightarrow> k \<notin> fst ` set (get_observation_space_element q))
      \<longrightarrow> map_of (compose_observation_space (ss1 @ p # ss2) gs) k = Some v)
   \<and> (add_to_observation_space g \<and> (k, v) \<in> set (get_observation_space_element g)
        \<and> distinct (map fst (get_observation_space_element g))
        \<and> (\<forall>q\<in>set gs2. add_to_observation_space q
               \<longrightarrow> k \<notin> fst ` set (get_observation_space_element q))
      \<longrightarrow> map_of (compose_observation_space ss (gs1 @ g # gs2)) k = Some v)"
proof (intro conjI impI)
  show "map_sum id observation_space (env_init config jc rs ss gs)
     = map_sum id (\<lambda>e. compose_observation_space ss gs) (env_init config jc rs [] [])"
    by (simp add: env_init_def Let_def split: sum.splits)
next
  assume "add_to_observation_space p \<and> (k, v) \<in> set (get_observation_space_element p)
        \<and> distinct (map fst (get_observation_space_element p))
        \<and> (\<forall>q\<in>set ss2. add_to_observation_space q
               \<longrightarrow> k \<notin> fst ` set (get_observation_space_element q))
        \<and> (\<forall>q\<in>set gs. add_to_observation_space q
               \<longrightarrow> k \<notin> fst ` set (get_observation_space_element q))"
  then show "map_of (compose_observation_space (ss1 @ p # ss2) gs) k = Some v"
    by (simp add: compose_observation_space_def space_loop_skip space_loop_last)
next
  assume "add_to_observation_space g \<and> (k, v) \<in> set (get_observation_space_element g)
        \<and> distinct (map fst (get_observation_space_element g))
        \<and> (\<forall>q\<in>set gs2. add_to_observation_space q
               \<longrightarrow> k \<notin> fst ` set (get_observation_space_element q))"
  then show "map_of (compose_observation_space ss (gs1 @ g # gs2)) k = Some v"
    by (simp add: compose_observation_space_def space_loop_last)
qed

theorem observation_key_later_wins_witness:
  "map_sum id observation_space
      (env_init example_config [False] [example_robot ''ur5_1'']
         [example_sensor ''joints'' 1, example_sensor ''joints'' 2] [example_goal])
     = Inr [(''joints'', 2), (''distance'', 3)]
   \<and> map_of (compose_observation_space
         [example_sensor ''joints'' 1, example_sensor ''joints'' 2] [example_goal]) ''joints''
       = Some 2
   \<and> map_of (compose_observation_space [example_sensor ''distance'' 1] [example_goal])
         ''distance'' = Some 3"
  using observation_key_later_wins [where config = example_config and jc = "[False]"
      and rs = "[example_robot ''ur5_1'']"
      and ss = "[example_sensor ''joints'' 1, example_sensor ''joints'' 2]"
      and gs = "[example_goal]" and p = "example_sensor ''joints'' 2" and k = "''joints''"
      and v = 2 and ?ss2.0 = "[]" and ?ss1.0 = "[example_sensor ''joints'' 1]"]
    observation_key_later_wins [where ss = "[example_sensor ''distance'' 1]"
      and g = example_goal and k = "''distance''" and v = 3 and ?gs2.0 = "[]"
      and ?gs1.0 = "[]"]
  by (simp add: example_defs env_init_def register_robots_def Let_def py_index_def
      world_init_def compose_observation_space_def)

section \<open>The attempts of \<^verbatim>\<open>reset\<close>\<close>

lemma teleport_loop_calls:
  "teleport_loop rs idx ees tr = Inr tr' \<Longrightarrow> tr' = tr @ teleport_calls idx ees"
proof (induction idx ees arbitrary: tr rule: teleport_calls.induct)
  case (1 idx)
  then show ?case by simp
next
  case (2 idx q rest)
  then show ?case by simp
next
  case (3 idx p rest)
  from 3(2) 3(1)[of "tr @ [Moveto_xyz idx p]"] show ?case by (simp split: if_splits)
next
  case (4 idx p q rest)
  from 4(2) 4(1)[of "tr @ [Moveto_xyzquat idx p q]"] show ?case by (simp split: if_splits)
qed

text \<open>
  Claim C8 fails: in an attempt of the example, \<^verbatim>\<open>World.build()\<close> is called before the
  first robot is moved to its starting position.
\<close>

theorem world_build_before_teleport:
  "attempt example_env (example_reset_in True) 7 [] =
     Inr [Reset_simulation, World_reset, Robot_build 0, Robot_build 1,
          Create_ee_starting_points, Create_position_target, Create_rotation_target,
          World_build, Moveto_xyz 0 5, Perform_collision_check :: (nat, nat) call]"
  by (simp add: attempt_def example_defs upt_rec)

text \<open>
  Claim C8, as the code has it. An attempt that reaches its collision check has made these
  calls, in this order: the simulation and the world are reset, the robots are built, the world
  creates the starting points and the two targets, \<^verbatim>\<open>World.build()\<close> is called, and only
  then the teleport operations apply the starting points, robot by robot.
\<close>

theorem attempt_order:
  "attempt e inp n tr = Inr tr' \<Longrightarrow>
   tr' = tr @ [Reset_simulation, World_reset] @ map Robot_build [0..<length (robots e)]
          @ [Create_ee_starting_points, Create_position_target, Create_rotation_target,
             World_build]
          @ teleport_calls 0 (ee_starting_points inp n) @ [Perform_collision_check]"
  by (auto simp: attempt_def split: sum.splits dest: teleport_loop_calls)

theorem attempt_order_witness:
  "attempt example_env (example_reset_in False) 0 ([] :: (nat, nat) call list)
     = Inr [Reset_simulation, World_reset, Robot_build 0, Robot_build 1,
            Create_ee_starting_points, Create_position_target, Create_rotation_target,
            World_build, Moveto_xyz 0 5, Perform_collision_check]
   \<and> [Reset_simulation, World_reset, Robot_build 0, Robot_build 1,
      Create_ee_starting_points, Create_position_target, Create_rotation_target,
      World_build, Moveto_xyz 0 5, Perform_collision_check :: (nat, nat) call]
     = [] @ [Reset_simulation, World_reset] @ map Robot_build [0..<length (robots example_env)]
          @ [Create_ee_starting_points, Create_position_target, Create_rotation_target,
             World_build]
          @ teleport_calls 0 (ee_starting_points (example_reset_in False) 0)
          @ [Perform_collision_check]"
proof -
  have h: "attempt example_env (example_reset_in False) 0 ([] :: (nat, nat) call list)
     = Inr [Reset_simulation, World_reset, Robot_build 0, Robot_build 1,
            Create_ee_starting_points, Create_position_target, Create_rotation_target,
            World_build, Moveto_xyz 0 5, Perform_collision_check]"
    by (simp add: attempt_def example_defs upt_rec)
  from attempt_order [OF h] h show ?thesis by simp
qed

section \<open>Exhaustion of the attempts\<close>

lemma count_list_concat_replicate:
  "count_list (concat (replicate n xs)) x = n * count_list xs x"
  by (induction n) simp_all

lemma reset_loop_exhausted:
  assumes coll: "\<And>n. collides_at inp n"
    and att: "\<And>n tr. attempt e inp n tr = Inr (tr @ calls)"
  shows "reset_count \<le> 1001 \<Longrightarrow>
    reset_loop e inp reset_count tr
      = Inl (Exception, tr @ concat (replicate (1001 - reset_count) calls))"
proof (induction k \<equiv> "1001 - reset_count" arbitrary: reset_count tr)
  case 0
  then have "reset_count = 1001" by simp
  then show ?case by simp
next
  case (Suc k)
  then have le: "reset_count \<le> 1000" and k: "k = 1001 - (reset_count + 1)" by simp_all
  have "reset_loop e inp reset_count tr = reset_loop e inp (reset_count + 1) (tr @ calls)"
    using le coll att by (subst reset_loop.simps) simp
  also have "\<dots> = Inl (Exception, (tr @ calls) @ concat (replicate k calls))"
    using Suc.hyps(1)[of "reset_count + 1" "tr @ calls"] le k by simp
  also have "(tr @ calls) @ concat (replicate k calls)
      = tr @ concat (replicate (1001 - reset_count) calls)"
    using Suc.hyps(2)[symmetric] by simp
  finally show ?case .
qed


text \<open>
  Claim C2, evaluated where it fails. When every attempt collides, \<^verbatim>\<open>reset\<close> raises the
  exception, but after 1001 attempts: the simulation was reset 1001 times and the collision
  check was run 1001 times. The counter starts at 0 and the loop gives up when it is greater
  than 1000, where the message of the exception speaks of 1000 tries.
\<close>

theorem reset_exhausted_after_1001:
  "(case reset example_env (example_reset_in True) of
      Inl (err, tr :: (nat, nat) call list) \<Rightarrow>
        Some (err, count_list tr Reset_simulation, count_list tr Perform_collision_check)
    | Inr r \<Rightarrow> None)
   = Some (Exception, 1001, 1001)"
proof -
  have att: "\<And>n tr. attempt example_env (example_reset_in True) n tr
      = Inr (tr @ [Reset_simulation, World_reset, Robot_build 0, Robot_build 1,
          Create_ee_starting_points, Create_position_target, Create_rotation_target,
          World_build, Moveto_xyz 0 5, Perform_collision_check :: (nat, nat) call])"
    by (simp add: attempt_def example_defs upt_rec)
  have coll: "\<And>n. collides_at (example_reset_in True) n"
    by (simp add: example_reset_in_def)
  show ?thesis
    unfolding reset_def
    by (simp add: reset_loop_exhausted [OF coll att] count_list_concat_replicate
        del: reset_loop.simps)
qed

section \<open>The calls of the loops of \<^verbatim>\<open>step\<close>\<close>

lemma merge_loop_calls:
  "merge_loop opt answer ev idx ps d tr = (d', tr') \<Longrightarrow>
   \<exists>suf. tr' = tr @ suf \<and> set suf \<subseteq> range ev"
proof (induction ps arbitrary: idx d tr)
  case Nil
  then show ?case by simp
next
  case (Cons p ps)
  show ?case
  proof (cases "opt p")
    case True
    with Cons.prems have "merge_loop opt answer ev (idx + 1) ps (dict_merge d (answer idx))
        (tr @ [ev idx]) = (d', tr')" by simp
    from Cons.IH [OF this] show ?thesis by auto
  next
    case False
    with Cons.prems have "merge_loop opt answer ev (idx + 1) ps d tr = (d', tr')" by simp
    from Cons.IH [OF this] show ?thesis .
  qed
qed

lemma get_obs_calls:
  assumes "get_obs e inp tr = (obs_dict, tr')"
  shows "\<exists>suf. tr' = tr @ suf \<and> (\<forall>c\<in>set suf. \<not> is_process_action c)"
proof -
  obtain d1 tr1 where 1: "merge_loop add_to_observation_space (sensor_observation inp)
      Sensor_get_observation 0 (sensors e) [] tr = (d1, tr1 :: ('b, 'a) call list)"
    by (cases "merge_loop add_to_observation_space (sensor_observation inp)
      Sensor_get_observation 0 (sensors e) [] tr :: 'a dict \<times> ('b, 'a) call list") auto
  with assms have 2: "merge_loop add_to_observation_space (goal_observation inp)
      Goal_get_observation 0 (goals e) d1 tr1 = (obs_dict, tr')"
    by (simp add: get_obs_def)
  from merge_loop_calls [OF 1] merge_loop_calls [OF 2] show ?thesis
    by (auto simp: subset_iff; fastforce)
qed

lemma build_info_result:
  assumes "build_info e inp is_success exec_times_cpu tr = Inr (e', info, tr')"
  shows "(\<exists>l. e' = e\<lparr>log := l\<rparr>)
     \<and> (\<exists>suf. tr' = tr @ suf \<and> (\<forall>c\<in>set suf. \<not> is_process_action c))"
proof (cases "logging e = 1 \<or> logging e = 2")
  case False
  with assms have "e' = e" "tr' = tr"
    by (auto simp: build_info_def split: if_splits)
  then show ?thesis by (auto intro: exI [of _ "log e"])
next
  case True
  with assms obtain info0 info1 tr1 where
    1: "merge_loop add_to_logging (\<lambda>i. plugin_dict (sensor_log inp i))
          Sensor_get_data_for_logging 0 (sensors e) info0 tr = (info1, tr1)"
    and 2: "merge_loop add_to_logging (\<lambda>i. plugin_dict (goal_log inp i))
          Goal_get_data_for_logging 0 (goals e) info1 tr1 = (the info, tr')"
    and 3: "e' = e\<lparr>log := log e @ [the info]\<rparr>"
    by (auto simp: build_info_def split: sum.splits prod.splits)
  from merge_loop_calls [OF 1] merge_loop_calls [OF 2] 3 show ?thesis
    by (auto simp: subset_iff; fastforce)
qed

lemma reward_loop_infos:
  "reward_loop answer stp idx gs act infos tr = Inr (act', infos', tr') \<Longrightarrow>
   infos' = infos @ map answer [idx..<idx + length gs]
   \<and> (\<exists>suf. tr' = tr @ suf \<and> (\<forall>c\<in>set suf. \<not> is_process_action c))"
proof (induction gs arbitrary: idx act infos tr)
  case Nil
  then show ?case by simp
next
  case (Cons g gs)
  from Cons.prems obtain act1 where "reward_loop answer stp (idx + 1) gs act1
      (infos @ [answer idx]) (tr @ [Goal_reward idx stp]) = Inr (act', infos', tr')"
    by (auto simp: Let_def split: if_splits option.splits)
  from Cons.IH [OF this] obtain suf where
    1: "infos' = (infos @ [answer idx]) @ map answer [idx + 1..<idx + 1 + length gs]"
    and 2: "tr' = (tr @ [Goal_reward idx stp]) @ suf" "\<forall>c\<in>set suf. \<not> is_process_action c"
    by blast
  have "[idx..<idx + length (g # gs)] = idx # [idx + 1..<idx + 1 + length gs]"
    using upt_conv_Cons [of idx "idx + length (g # gs)"] by (simp del: upt_Suc)
  with 1 have "infos' = infos @ map answer [idx..<idx + length (g # gs)]"
    by (simp del: upt_Suc)
  moreover from 2 have "tr' = tr @ (Goal_reward idx stp # suf)"
    "\<forall>c\<in>set (Goal_reward idx stp # suf). \<not> is_process_action c" by simp_all
  ultimately show ?case by blast
qed

lemma reward_loop_active:
  "reward_loop answer stp idx gs (Some a) infos tr = Inr (act', infos', tr') \<Longrightarrow>
   \<exists>a'. act' = Some a' \<and> length a' = length a
     \<and> (\<forall>j<length a. a' ! j = (a ! j \<and> \<not> (idx \<le> j \<and> j < idx + length gs
            \<and> goal_success (answer j) \<and> \<not> continue_after_success (gs ! (j - idx)))))"
proof (induction gs arbitrary: idx a infos tr)
  case Nil
  then show ?case by auto
next
  case (Cons g gs)
  show ?case
  proof (cases "goal_success (answer idx) \<and> \<not> continue_after_success g")
    case False
    with Cons.prems have "reward_loop answer stp (idx + 1) gs (Some a) (infos @ [answer idx])
        (tr @ [Goal_reward idx stp]) = Inr (act', infos', tr')"
      by (auto simp: Let_def)
    from Cons.IH [OF this] obtain a' where a': "act' = Some a'" "length a' = length a"
      "\<forall>j<length a. a' ! j = (a ! j \<and> \<not> (idx + 1 \<le> j \<and> j < idx + 1 + length gs
            \<and> goal_success (answer j) \<and> \<not> continue_after_success (gs ! (j - (idx + 1)))))"
      by blast
    have "a' ! j = (a ! j \<and> \<not> (idx \<le> j \<and> j < idx + length (g # gs)
            \<and> goal_success (answer j) \<and> \<not> continue_after_success ((g # gs) ! (j - idx))))"
      if "j < length a" for j
    proof (cases "j = idx")
      case True
      with a'(3) that False show ?thesis by simp
    next
      case ne: False
      show ?thesis
      proof (cases "j < idx")
        case True
        with a'(3) that show ?thesis by simp
      next
        case False
        with ne have "j - idx = Suc (j - (idx + 1))" and le: "idx + 1 \<le> j" by arith+
        then have "(g # gs) ! (j - idx) = gs ! (j - (idx + 1))" by simp
        note this le
        from this a'(3) that show ?thesis by simp
      qed
    qed
    with a'(1,2) show ?thesis by blast
  next
    case True
    with Cons.prems have len: "idx < length a" by (auto simp: Let_def split: if_splits)
    with True Cons.prems have "reward_loop answer stp (idx + 1) gs (Some (a[idx := False]))
        (infos @ [answer idx]) (tr @ [Goal_reward idx stp]) = Inr (act', infos', tr')"
      by (auto simp: Let_def)
    from Cons.IH [OF this] obtain a' where a': "act' = Some a'" "length a' = length a"
      "\<forall>j<length a. a' ! j = (a[idx := False] ! j \<and> \<not> (idx + 1 \<le> j \<and> j < idx + 1 + length gs
            \<and> goal_success (answer j) \<and> \<not> continue_after_success (gs ! (j - (idx + 1)))))"
      by auto
    have "a' ! j = (a ! j \<and> \<not> (idx \<le> j \<and> j < idx + length (g # gs)
            \<and> goal_success (answer j) \<and> \<not> continue_after_success ((g # gs) ! (j - idx))))"
      if "j < length a" for j
    proof (cases "j = idx")
      case eq: True
      with a'(3) that True show ?thesis by simp
    next
      case ne: False
      show ?thesis
      proof (cases "j < idx")
        case True
        with a'(3) that show ?thesis by simp
      next
        case False
        with ne have "j - idx = Suc (j - (idx + 1))" and le: "idx + 1 \<le> j" by arith+
        then have "(g # gs) ! (j - idx) = gs ! (j - (idx + 1))" by simp
        note this le
        from this a'(3) that ne show ?thesis by simp
      qed
    qed
    with a'(1,2) show ?thesis by blast
  qed
qed

lemma action_loop_trace:
  "\<exists>suf. calls_made (action_loop act dims action ex idx rs offset ts tr) = tr @ suf
     \<and> (\<forall>c\<in>set suf. \<exists>j s a. c = Process_action j s \<and> act = Some a \<and> idx \<le> j
            \<and> j < length a \<and> a ! j)"
proof (induction rs arbitrary: idx offset ts tr)
  case Nil
  show ?case by (simp add: calls_made_def)
next
  case (Cons r rs)
  show ?case
  proof (cases act)
    case None
    then show ?thesis by (simp add: calls_made_def)
  next
    case (Some a)
    show ?thesis
    proof (cases "idx < length a")
      case False
      with Some show ?thesis by (simp add: calls_made_def)
    next
      case len: True
      show ?thesis
      proof (cases "a ! idx")
        case False
        from Cons.IH [of "idx + 1" offset ts tr] obtain suf where
          "calls_made (action_loop act dims action ex (idx + 1) rs offset ts tr) = tr @ suf"
          "\<forall>c\<in>set suf. \<exists>j s a. c = Process_action j s \<and> act = Some a \<and> idx + 1 \<le> j
              \<and> j < length a \<and> a ! j" by blast
        with False len Some show ?thesis
          by (intro exI [of _ suf]) (auto; fastforce)
      next
        case True
        show ?thesis
        proof (cases "idx < length dims")
          case False
          with True len Some show ?thesis by (simp add: calls_made_def)
        next
          case d: True
          let ?s = "take (dims ! idx) (drop offset action)"
          from Cons.IH [of "idx + 1" "offset + dims ! idx" "ts @ [ex idx ?s]"
              "tr @ [Process_action idx ?s]"] obtain suf where
            "calls_made (action_loop act dims action ex (idx + 1) rs (offset + dims ! idx)
               (ts @ [ex idx ?s]) (tr @ [Process_action idx ?s]))
             = (tr @ [Process_action idx ?s]) @ suf"
            "\<forall>c\<in>set suf. \<exists>j s a. c = Process_action j s \<and> act = Some a \<and> idx + 1 \<le> j
              \<and> j < length a \<and> a ! j" by blast
          with True len Some d show ?thesis
            by (intro exI [of _ "Process_action idx ?s # suf"]) (auto simp: Let_def; fastforce)
        qed
      qed
    qed
  qed
qed

lemma reward_loop_trace:
  "\<exists>suf. step_calls (reward_loop answer stp idx gs act infos tr) = tr @ suf
     \<and> (\<forall>c\<in>set suf. \<not> is_process_action c)"
proof (induction gs arbitrary: idx act infos tr)
  case Nil
  show ?case by (simp add: step_calls_def)
next
  case (Cons g gs)
  have *: "\<exists>suf. step_calls (reward_loop answer stp (idx + 1) gs act1 (infos @ [answer idx])
        (tr @ [Goal_reward idx stp])) = tr @ suf \<and> (\<forall>c\<in>set suf. \<not> is_process_action c)"
    for act1
  proof -
    from Cons.IH [of "idx + 1" act1 "infos @ [answer idx]" "tr @ [Goal_reward idx stp]"]
    obtain suf where "step_calls (reward_loop answer stp (idx + 1) gs act1
        (infos @ [answer idx]) (tr @ [Goal_reward idx stp])) = (tr @ [Goal_reward idx stp]) @ suf"
      "\<forall>c\<in>set suf. \<not> is_process_action c" by blast
    then show ?thesis by (intro exI [of _ "Goal_reward idx stp # suf"]) simp
  qed
  have **: "\<exists>suf. tr @ [Goal_reward idx stp] = tr @ suf
      \<and> (\<forall>c\<in>set suf. \<not> is_process_action c)"
    by (intro exI [of _ "[Goal_reward idx stp]"]) simp
  show ?case
  proof (cases "goal_success (answer idx) \<and> \<not> continue_after_success g")
    case False
    with * [of act] show ?thesis by (auto simp: Let_def)
  next
    case True
    show ?thesis
    proof (cases act)
      case None
      with True ** show ?thesis by (simp add: Let_def step_calls_def)
    next
      case (Some a)
      show ?thesis
      proof (cases "idx < length a")
        case False
        with Some True ** show ?thesis by (simp add: Let_def step_calls_def)
      next
        case len: True
        with Some True * [of "Some (a[idx := False])"] show ?thesis by (simp add: Let_def)
      qed
    qed
  qed
qed

lemma merge_loop_trace:
  "\<exists>suf. snd (merge_loop opt answer ev idx ps d tr) = tr @ suf \<and> set suf \<subseteq> range ev"
  using merge_loop_calls [of opt answer ev idx ps d tr]
  by (cases "merge_loop opt answer ev idx ps d tr") auto

lemma get_obs_trace:
  "\<exists>suf. snd (get_obs e inp tr) = tr @ suf \<and> (\<forall>c\<in>set suf. \<not> is_process_action c)"
  using get_obs_calls [of e inp tr] by (cases "get_obs e inp tr") auto

lemma build_info_trace:
  "\<exists>suf. step_calls (build_info e inp is_success ts tr) = tr @ suf
     \<and> (\<forall>c\<in>set suf. \<not> is_process_action c)"
proof (cases "build_info e inp is_success ts tr")
  case (Inl a)
  then have "snd a = tr" by (auto simp: build_info_def split: if_splits sum.splits prod.splits)
  with Inl show ?thesis by (cases a) (simp add: step_calls_def)
next
  case (Inr b)
  obtain e' info tr' where "b = (e', info, tr')" by (cases b) auto
  with Inr build_info_result [of e inp is_success ts tr e' info tr'] show ?thesis
    by (simp add: step_calls_def)
qed

section \<open>\<^verbatim>\<open>step\<close> in parts\<close>

lemma update_tracking_proj:
  "fst (snd (update_tracking e col act infos)) = (np_any (map goal_done infos) \<or> col)"
  "snd (snd (update_tracking e col act infos)) = np_all (map goal_success infos)"
  "active_robots (fst (update_tracking e col act infos)) = act"
  "goals (fst (update_tracking e col act infos)) = goals e"
  "robots (fst (update_tracking e col act infos)) = robots e"
  "sensors (fst (update_tracking e col act infos)) = sensors e"
  "logging (fst (update_tracking e col act infos)) = logging e"
  "stat_buffer_size (fst (update_tracking e col act infos)) = stat_buffer_size e"
  "action_space_dims (fst (update_tracking e col act infos)) = action_space_dims e"
  "success_stat (fst (update_tracking e col act infos)) =
     (if np_any (map goal_done infos) \<or> col
      then stat_append (stat_buffer_size e) (success_stat e) (np_all (map goal_success infos))
      else success_stat e)"
  "timeout_stat (fst (update_tracking e col act infos)) =
     (if np_any (map goal_done infos) \<or> col
      then stat_append (stat_buffer_size e) (timeout_stat e) (np_any (map goal_timeout infos))
      else timeout_stat e)"
  "out_of_bounds_stat (fst (update_tracking e col act infos)) =
     (if np_any (map goal_done infos) \<or> col
      then stat_append (stat_buffer_size e) (out_of_bounds_stat e) (np_any (map goal_oob infos))
      else out_of_bounds_stat e)"
  "collision_stat (fst (update_tracking e col act infos)) =
     (if np_any (map goal_done infos) \<or> col
      then stat_append (stat_buffer_size e) (collision_stat e) col
      else collision_stat e)"
  by (simp_all add: update_tracking_def Let_def)

lemma step_Inr:
  assumes "step e action inp = Inr (e', out, tr)"
  shows "\<exists>ts tr1 act infos tr2 e2 s l.
      action_loop (active_robots e) (action_space_dims e) action (exec_time inp)
             0 (robots e) 0 [] [World_update] = Inr (ts, tr1)
    \<and> reward_loop (reward_reply inp) (steps_current_episode e) 0 (goals e)
         (active_robots e) []
         (tr1 @ map Sensor_update [0..<length (sensors e)] @ [Perform_collision_check])
       = Inr (act, infos, tr2)
    \<and> update_tracking e (collides inp) act infos = (e2, out_done out, s)
    \<and> (\<exists>tr3. build_info e2 inp s ts tr2 = Inr (e', Some (out_info out), tr3))
    \<and> e' = e2\<lparr>log := l\<rparr>"
proof -
  from assms obtain ts tr1 where 1: "action_loop (active_robots e) (action_space_dims e) action
      (exec_time inp) 0 (robots e) 0 [] [World_update] = Inr (ts, tr1)"
    by (auto simp: step_def split: sum.splits)
  from assms 1 obtain act infos tr2 where 2: "reward_loop (reward_reply inp)
      (steps_current_episode e) 0 (goals e) (active_robots e) []
      (tr1 @ map Sensor_update [0..<length (sensors e)] @ [Perform_collision_check])
       = Inr (act, infos, tr2)"
    by (auto simp: step_def split: sum.splits)
  obtain e2 d s where 3: "update_tracking e (collides inp) act infos = (e2, d, s)"
    by (cases "update_tracking e (collides inp) act infos") auto
  from assms 1 2 3 obtain tr3 where
    4: "build_info e2 inp s ts tr2 = Inr (e', Some (out_info out), tr3)"
    and 5: "out_done out = d"
    by (auto simp: step_def split: sum.splits prod.splits option.splits)
  from build_info_result [OF 4] obtain l where "e' = e2\<lparr>log := l\<rparr>" by blast
  with 1 2 3 4 5 show ?thesis by auto
qed

lemma step_trace:
  "\<exists>pa suf. step_calls (step e action inp) = World_update # pa @ suf
     \<and> (\<forall>c\<in>set pa. \<exists>j s a. c = Process_action j s \<and> active_robots e = Some a
            \<and> j < length a \<and> a ! j)
     \<and> (\<forall>c\<in>set suf. \<not> is_process_action c)"
proof -
  let ?al = "action_loop (active_robots e) (action_space_dims e) action (exec_time inp)
             0 (robots e) 0 [] [World_update]"
  from action_loop_trace [of "active_robots e" "action_space_dims e" action "exec_time inp"
      0 "robots e" 0 "[]" "[World_update]"]
  obtain pa where pa: "calls_made ?al = World_update # pa"
    "\<forall>c\<in>set pa. \<exists>j s a. c = Process_action j s \<and> active_robots e = Some a
            \<and> j < length a \<and> a ! j"
    by auto
  have "\<exists>suf. step_calls (step e action inp) = calls_made ?al @ suf
      \<and> (\<forall>c\<in>set suf. \<not> is_process_action c)"
  proof (cases ?al)
    case (Inl x)
    then show ?thesis
      by (cases x) (simp add: step_def calls_made_def step_calls_def)
  next
    case (Inr y)
    obtain ts tr1 where y: "y = (ts, tr1)" by (cases y) auto
    let ?tr = "tr1 @ map Sensor_update [0..<length (sensors e)] @ [Perform_collision_check]"
    let ?rl = "reward_loop (reward_reply inp) (steps_current_episode e) 0 (goals e)
         (active_robots e) [] ?tr"
    from reward_loop_trace [of "reward_reply inp" "steps_current_episode e" 0 "goals e"
        "active_robots e" "[]" ?tr]
    obtain suf2 where suf2: "step_calls ?rl = ?tr @ suf2" "\<forall>c\<in>set suf2. \<not> is_process_action c"
      by blast
    have "\<exists>suf3. step_calls (step e action inp) = step_calls ?rl @ suf3
        \<and> (\<forall>c\<in>set suf3. \<not> is_process_action c)"
    proof (cases ?rl)
      case (Inl x)
      with Inr y show ?thesis by (cases x) (simp add: step_def step_calls_def)
    next
      case rl: (Inr z)
      obtain act infos tr2 where z: "z = (act, infos, tr2)" by (cases z) auto
      obtain e2 d s where ut: "update_tracking e (collides inp) act infos = (e2, d, s)"
        by (cases "update_tracking e (collides inp) act infos") auto
      from build_info_trace [of e2 inp s ts tr2] obtain suf3 where
        suf3: "step_calls (build_info e2 inp s ts tr2) = tr2 @ suf3"
        "\<forall>c\<in>set suf3. \<not> is_process_action c" by blast
      show ?thesis
      proof (cases "build_info e2 inp s ts tr2")
        case (Inl x)
        with Inr y rl z ut suf3 show ?thesis
          by (cases x) (auto simp: step_def step_calls_def)
      next
        case bi: (Inr w)
        obtain e3 info tr3 where w: "w = (e3, info, tr3)" by (cases w) auto
        from get_obs_trace [of e3 inp tr3] obtain suf4 where
          suf4: "snd (get_obs e3 inp tr3) = tr3 @ suf4"
          "\<forall>c\<in>set suf4. \<not> is_process_action c" by blast
        from bi w suf3 have "tr3 = tr2 @ suf3" by (simp add: step_calls_def)
        with Inr y rl z ut bi w suf3 suf4 show ?thesis
          by (intro exI [of _ "suf3 @ suf4"])
            (auto simp: step_def step_calls_def split: prod.splits option.splits)
      qed
    qed
    then obtain suf3 where "step_calls (step e action inp) = step_calls ?rl @ suf3"
      "\<forall>c\<in>set suf3. \<not> is_process_action c" by blast
    with suf2 Inr y show ?thesis
      by (intro exI [of _ "map Sensor_update [0..<length (sensors e)]
            @ [Perform_collision_check] @ suf2 @ suf3"])
        (auto simp: calls_made_def)
  qed
  with pa show ?thesis by auto
qed

section \<open>Termination signals\<close>

lemma np_any_set: "np_any xs = (\<exists>x\<in>set xs. x)"
  by (induction xs) auto

lemma np_all_set: "np_all xs = (\<forall>x\<in>set xs. x)"
  by (induction xs) auto

lemma np_any_upt: "np_any (map g [0..<n]) = (\<exists>i<n. g i)"
  by (auto simp: np_any_set)

lemma np_all_upt: "np_all (map g [0..<n]) = (\<forall>i<n. g i)"
  by (auto simp: np_all_set)

lemma plugin_dict_keys: "fst ` set (plugin_dict d) = fst ` set d"
  by (induction d) (simp_all add: plugin_dict_def)

lemma exec_time_loop_is_success:
  "exec_time_loop ts idx rs info = Inr info' \<Longrightarrow>
   map_of info' ''is_success'' = map_of info ''is_success''"
  by (induction rs arbitrary: idx info) (auto simp: map_of_dict_set split: if_splits)

lemma merge_loop_keep:
  assumes "\<forall>i. k \<notin> fst ` set (answer i)"
  shows "merge_loop opt answer ev idx ps d tr = (d', tr') \<Longrightarrow> map_of d' k = map_of d k"
proof (induction ps arbitrary: idx d tr)
  case Nil
  then show ?case by simp
next
  case (Cons p ps)
  have "map_of (rev (answer idx)) k = None"
    using assms by (simp add: map_of_eq_None_iff)
  then have "map_of (dict_merge d (answer idx)) k = map_of d k"
    by (simp add: map_of_dict_merge map_add_def)
  with Cons show ?case by (auto split: if_splits)
qed

lemma build_info_is_success:
  assumes "build_info e inp s ts tr = Inr (e', Some info, tr')"
    and "logging e = 1 \<or> logging e = 2"
    and "\<forall>i. ''is_success'' \<notin> fst ` set (sensor_log inp i)"
    and "\<forall>i. ''is_success'' \<notin> fst ` set (goal_log inp i)"
  shows "map_of info ''is_success'' = Some (Bool_val s)"
proof -
  from assms(1,2) obtain info0 info1 tr1 where
    0: "exec_time_loop ts 0 (robots e)
          [(''is_success'', Bool_val s),
           (''step'', Int_val (steps_current_episode e)),
           (''success_rate'', Average_of (success_stat e)),
           (''out_of_bounds_rate'', Average_of (out_of_bounds_stat e)),
           (''timeout_rate'', Average_of (timeout_stat e)),
           (''collision_rate'', Average_of (collision_stat e)),
           (''sim_time'', Clock_val),
           (''cpu_time'', Clock_val)] = Inr info0"
    and 1: "merge_loop add_to_logging (\<lambda>i. plugin_dict (sensor_log inp i))
          Sensor_get_data_for_logging 0 (sensors e) info0 tr = (info1, tr1)"
    and 2: "merge_loop add_to_logging (\<lambda>i. plugin_dict (goal_log inp i))
          Goal_get_data_for_logging 0 (goals e) info1 tr1 = (info, tr')"
    by (auto simp: build_info_def split: sum.splits prod.splits)
  have k1: "\<forall>i. ''is_success'' \<notin> fst ` set (plugin_dict (sensor_log inp i))"
    and k2: "\<forall>i. ''is_success'' \<notin> fst ` set (plugin_dict (goal_log inp i))"
    using assms(3,4) by (simp_all add: plugin_dict_keys)
  from exec_time_loop_is_success [OF 0] merge_loop_keep [OF k1 1] merge_loop_keep [OF k2 2]
  show ?thesis by simp
qed

text \<open>
  Claim C6. In a step that returns, \<^verbatim>\<open>done\<close> is true if and only if the world collides
  or at least one goal reported done. \<^verbatim>\<open>is_success\<close> is true if and only if every goal
  reported success (so it is true without goals), \<^verbatim>\<open>timeout\<close> and
  \<^verbatim>\<open>out_of_bounds\<close> are true if and only if some goal reported them: these are the values
  that the stat buffers take when the step is done, and \<^verbatim>\<open>is_success\<close> is also the entry
  of that name in the info dictionary when there is logging and no plugin logs under that name.
\<close>

theorem step_aggregation:
  assumes "step e action inp = Inr (e', out, tr)"
  shows "(out_done out \<longleftrightarrow>
            collides inp \<or> (\<exists>i<length (goals e). goal_done (reward_reply inp i)))
    \<and> (out_done out \<longrightarrow>
          success_stat e' = stat_append (stat_buffer_size e) (success_stat e)
            (\<forall>i<length (goals e). goal_success (reward_reply inp i))
        \<and> timeout_stat e' = stat_append (stat_buffer_size e) (timeout_stat e)
            (\<exists>i<length (goals e). goal_timeout (reward_reply inp i))
        \<and> out_of_bounds_stat e' = stat_append (stat_buffer_size e) (out_of_bounds_stat e)
            (\<exists>i<length (goals e). goal_oob (reward_reply inp i))
        \<and> collision_stat e' = stat_append (stat_buffer_size e) (collision_stat e)
            (collides inp))
    \<and> ((logging e = 1 \<or> logging e = 2)
        \<and> (\<forall>i. ''is_success'' \<notin> fst ` set (sensor_log inp i))
        \<and> (\<forall>i. ''is_success'' \<notin> fst ` set (goal_log inp i))
        \<longrightarrow> map_of (out_info out) ''is_success''
             = Some (Bool_val (\<forall>i<length (goals e). goal_success (reward_reply inp i))))"
proof -
  from step_Inr [OF assms] obtain ts tr1 act infos tr2 e2 s l tr3 where
    rl: "reward_loop (reward_reply inp) (steps_current_episode e) 0 (goals e)
         (active_robots e) []
         (tr1 @ map Sensor_update [0..<length (sensors e)] @ [Perform_collision_check])
       = Inr (act, infos, tr2)"
    and ut: "update_tracking e (collides inp) act infos = (e2, out_done out, s)"
    and bi: "build_info e2 inp s ts tr2 = Inr (e', Some (out_info out), tr3)"
    and e': "e' = e2\<lparr>log := l\<rparr>"
    by blast
  from reward_loop_infos [OF rl] have infos: "infos = map (reward_reply inp) [0..<length (goals e)]"
    by simp
  from ut have e2: "e2 = fst (update_tracking e (collides inp) act infos)"
    and d: "out_done out = fst (snd (update_tracking e (collides inp) act infos))"
    and s: "s = snd (snd (update_tracking e (collides inp) act infos))"
    by simp_all
  have d': "out_done out \<longleftrightarrow>
      collides inp \<or> (\<exists>i<length (goals e). goal_done (reward_reply inp i))"
    unfolding d by (auto simp: update_tracking_proj infos np_any_upt)
  have s': "s = (\<forall>i<length (goals e). goal_success (reward_reply inp i))"
    unfolding s by (simp add: update_tracking_proj infos np_all_upt)
  have stats: "success_stat e' = stat_append (stat_buffer_size e) (success_stat e)
            (\<forall>i<length (goals e). goal_success (reward_reply inp i))"
     "timeout_stat e' = stat_append (stat_buffer_size e) (timeout_stat e)
            (\<exists>i<length (goals e). goal_timeout (reward_reply inp i))"
     "out_of_bounds_stat e' = stat_append (stat_buffer_size e) (out_of_bounds_stat e)
            (\<exists>i<length (goals e). goal_oob (reward_reply inp i))"
     "collision_stat e' = stat_append (stat_buffer_size e) (collision_stat e) (collides inp)"
    if "out_done out"
    using that d unfolding e' e2
    by (simp_all add: update_tracking_proj infos np_any_upt np_all_upt)
  have "map_of (out_info out) ''is_success''
       = Some (Bool_val (\<forall>i<length (goals e). goal_success (reward_reply inp i)))"
    if "logging e = 1 \<or> logging e = 2"
      "\<forall>i. ''is_success'' \<notin> fst ` set (sensor_log inp i)"
      "\<forall>i. ''is_success'' \<notin> fst ` set (goal_log inp i)"
  proof -
    from that(1) have "logging e2 = 1 \<or> logging e2 = 2"
      unfolding e2 by (simp add: update_tracking_proj)
    from build_info_is_success [OF bi this that(2,3)] s' show ?thesis by simp
  qed
  with d' stats show ?thesis by blast
qed

theorem step_aggregation_witness:
  "(case step (example_env\<lparr>active_robots := Some [True, True]\<rparr>) [0, 1, 2, 3, 4, 5, 6, 7, 8, 9]
          ((example_step_in True)\<lparr>collides := True\<rparr>) of
      Inl err \<Rightarrow> False
    | Inr (e', out, tr) \<Rightarrow>
        out_done out \<and> success_stat e' = [False, False] \<and> timeout_stat e' = [False, False]
        \<and> out_of_bounds_stat e' = [False, False] \<and> collision_stat e' = [False, True]
        \<and> map_of (out_info out) ''is_success'' = Some (Bool_val False))"
proof -
  have "\<exists>e' out tr. step (example_env\<lparr>active_robots := Some [True, True]\<rparr>)
      [0, 1, 2, 3, 4, 5, 6, 7, 8, 9] ((example_step_in True)\<lparr>collides := True\<rparr>)
      = Inr (e', out, tr)"
    by (simp add: step_def update_tracking_def example_defs build_info_def get_obs_def Let_def)
  then obtain e' out tr where eq: "step (example_env\<lparr>active_robots := Some [True, True]\<rparr>)
      [0, 1, 2, 3, 4, 5, 6, 7, 8, 9] ((example_step_in True)\<lparr>collides := True\<rparr>)
      = Inr (e', out, tr)" by blast
  have two: "(\<forall>i<Suc (Suc 0). P i) = (P 0 \<and> P (Suc 0))"
    "(\<exists>i<Suc (Suc 0). P i) = (P 0 \<or> P (Suc 0))" for P :: "nat \<Rightarrow> bool"
    by (auto simp: less_Suc_eq)
  from step_aggregation [OF eq] show ?thesis
    unfolding eq by (simp add: example_defs stat_append_def two)
qed

section \<open>Active robots over an episode\<close>

lemma step_active:
  assumes "step e action inp = Inr (e', out, tr)" and "active_robots e = Some a"
  shows "\<exists>a'. active_robots e' = Some a' \<and> length a' = length a \<and> goals e' = goals e
     \<and> (\<forall>j<length a. a' ! j = (a ! j \<and> \<not> (j < length (goals e)
            \<and> goal_success (reward_reply inp j) \<and> \<not> continue_after_success (goals e ! j))))"
proof -
  from step_Inr [OF assms(1)] obtain ts tr1 act infos tr2 e2 s l where
    al: "action_loop (active_robots e) (action_space_dims e) action (exec_time inp)
             0 (robots e) 0 [] [World_update] = Inr (ts, tr1)"
    and rl: "reward_loop (reward_reply inp) (steps_current_episode e) 0 (goals e)
         (active_robots e) []
         (tr1 @ map Sensor_update [0..<length (sensors e)] @ [Perform_collision_check])
       = Inr (act, infos, tr2)"
    and ut: "update_tracking e (collides inp) act infos = (e2, out_done out, s)"
    and e': "e' = e2\<lparr>log := l\<rparr>"
    by blast
  from ut have e2: "e2 = fst (update_tracking e (collides inp) act infos)" by simp
  have "active_robots e' = act" "goals e' = goals e"
    unfolding e' e2 by (simp_all add: update_tracking_proj)
  with reward_loop_active [OF rl [unfolded assms(2)]] show ?thesis by auto
qed

lemma steps_calls:
  "active_robots e = Some a \<Longrightarrow>
   \<exists>suf. calls_made (steps e inps tr0) = tr0 @ suf
     \<and> (\<forall>j s. Process_action j s \<in> set suf \<longrightarrow> j < length a \<and> a ! j)"
proof (induction inps arbitrary: e a tr0)
  case Nil
  then show ?case by (simp add: calls_made_def)
next
  case (Cons ai inps)
  from step_trace [of e "fst ai" "snd ai"] Cons.prems obtain pa suf where
    st: "step_calls (step e (fst ai) (snd ai)) = World_update # pa @ suf"
    "\<forall>c\<in>set pa. \<exists>j s. c = Process_action j s \<and> j < length a \<and> a ! j"
    "\<forall>c\<in>set suf. \<not> is_process_action c"
    by auto
  have pa: "j < length a \<and> a ! j"
    if "Process_action j s \<in> set (step_calls (step e (fst ai) (snd ai)))" for j s
    using that st by auto
  show ?case
  proof (cases "step e (fst ai) (snd ai)")
    case (Inl x)
    then have "calls_made (steps e (ai # inps) tr0) = tr0 @ step_calls (step e (fst ai) (snd ai))"
      by (cases x) (simp add: calls_made_def step_calls_def)
    with pa show ?thesis by blast
  next
    case (Inr y)
    obtain e1 out tr1 where y: "y = (e1, out, tr1)" by (cases y) auto
    from step_active [OF Inr [unfolded y] Cons.prems] obtain a1 where
      a1: "active_robots e1 = Some a1" "length a1 = length a"
      "\<forall>j<length a. a1 ! j \<longrightarrow> a ! j" by auto
    from Cons.IH [OF a1(1), of "tr0 @ tr1"] obtain suf1 where
      suf1: "calls_made (steps e1 inps (tr0 @ tr1)) = (tr0 @ tr1) @ suf1"
      "\<forall>j s. Process_action j s \<in> set suf1 \<longrightarrow> j < length a1 \<and> a1 ! j" by blast
    from Inr y have tr1: "step_calls (step e (fst ai) (snd ai)) = tr1"
      by (simp add: step_calls_def)
    have "calls_made (steps e (ai # inps) tr0) = tr0 @ (tr1 @ suf1)"
      using Inr y suf1(1) by simp
    moreover have "\<forall>j s. Process_action j s \<in> set (tr1 @ suf1) \<longrightarrow> j < length a \<and> a ! j"
      using pa [unfolded tr1] suf1(2) a1(2,3) by auto
    ultimately show ?thesis by blast
  qed
qed

lemma steps_active:
  "steps e inps tr0 = Inr (e', tr') \<Longrightarrow> active_robots e = Some a \<Longrightarrow>
   \<exists>a'. active_robots e' = Some a' \<and> length a' = length a \<and> goals e' = goals e
     \<and> (\<forall>j<length a. (a' ! j \<longrightarrow> a ! j)
          \<and> (a ! j \<and> \<not> a' ! j \<longrightarrow> j < length (goals e)
               \<and> \<not> continue_after_success (goals e ! j)
               \<and> (\<exists>ai\<in>set inps. goal_success (reward_reply (snd ai) j))))"
proof (induction inps arbitrary: e a tr0)
  case Nil
  then show ?case by auto
next
  case (Cons ai inps)
  from Cons.prems(1) obtain e1 out tr1 where
    st: "step e (fst ai) (snd ai) = Inr (e1, out, tr1)"
    and rest: "steps e1 inps (tr0 @ tr1) = Inr (e', tr')"
    by (auto split: sum.splits)
  from step_active [OF st Cons.prems(2)] obtain a1 where
    a1: "active_robots e1 = Some a1" "length a1 = length a" "goals e1 = goals e"
    "\<forall>j<length a. a1 ! j = (a ! j \<and> \<not> (j < length (goals e)
            \<and> goal_success (reward_reply (snd ai) j) \<and> \<not> continue_after_success (goals e ! j)))"
    by blast
  from Cons.IH [OF rest a1(1)] obtain a' where
    a': "active_robots e' = Some a'" "length a' = length a1" "goals e' = goals e1"
    "\<forall>j<length a1. (a' ! j \<longrightarrow> a1 ! j)
          \<and> (a1 ! j \<and> \<not> a' ! j \<longrightarrow> j < length (goals e1)
               \<and> \<not> continue_after_success (goals e1 ! j)
               \<and> (\<exists>ai\<in>set inps. goal_success (reward_reply (snd ai) j)))"
    by blast
  have "(a' ! j \<longrightarrow> a ! j)
          \<and> (a ! j \<and> \<not> a' ! j \<longrightarrow> j < length (goals e)
               \<and> \<not> continue_after_success (goals e ! j)
               \<and> (\<exists>ai\<in>set (ai # inps). goal_success (reward_reply (snd ai) j)))"
    if "j < length a" for j
    using that a1(2,3,4) a'(4) by (cases "a1 ! j") auto
  with a'(1,2,3) a1(2,3) show ?case by auto
qed

text \<open>
  Claim C7. Goal \<open>j\<close> is the goal of robot \<open>j\<close>. Take any steps after a reset, an episode
  or a part of one, from a state with the active flags \<open>a\<close>. If robot \<open>j\<close> is inactive at the
  start, no call of \<^verbatim>\<open>process_action\<close> goes to it in these steps, whether they all return
  or one of them raises. If the steps return, the flags \<open>a'\<close> at the end are as many as at the
  start; a robot that was inactive is inactive; and a robot that was active and is inactive has
  a goal that does not continue after success and that reported success in one of the steps.
\<close>

theorem robot_stays_inactive:
  assumes "active_robots e = Some a" and "j < length a"
  shows "(\<not> a ! j \<longrightarrow> (\<forall>s. Process_action j s \<notin> set (calls_made (steps e inps []))))
    \<and> (\<forall>e' tr. steps e inps [] = Inr (e', tr) \<longrightarrow>
          (\<exists>a'. active_robots e' = Some a' \<and> length a' = length a
             \<and> (\<not> a ! j \<longrightarrow> \<not> a' ! j)
             \<and> (a ! j \<and> \<not> a' ! j \<longrightarrow> j < length (goals e)
                  \<and> \<not> continue_after_success (goals e ! j)
                  \<and> (\<exists>ai\<in>set inps. goal_success (reward_reply (snd ai) j)))))"
proof (intro conjI impI allI)
  assume "\<not> a ! j"
  with steps_calls [OF assms(1), of inps "[]"]
  show "Process_action j s \<notin> set (calls_made (steps e inps []))" for s by auto
next
  fix e' tr
  assume "steps e inps [] = Inr (e', tr)"
  from steps_active [OF this assms(1)] assms(2)
  show "\<exists>a'. active_robots e' = Some a' \<and> length a' = length a
             \<and> (\<not> a ! j \<longrightarrow> \<not> a' ! j)
             \<and> (a ! j \<and> \<not> a' ! j \<longrightarrow> j < length (goals e)
                  \<and> \<not> continue_after_success (goals e ! j)
                  \<and> (\<exists>ai\<in>set inps. goal_success (reward_reply (snd ai) j)))"
    by auto
qed

theorem robot_stays_inactive_witness:
  "(\<forall>s. Process_action 0 s \<notin> set (calls_made
        (steps (example_env\<lparr>logging := 0, active_robots := Some [False, True]\<rparr>)
           [([0, 1, 2, 3, 4, 5, 6, 7, 8, 9], example_step_in False)] [])))
   \<and> filter is_process_action (calls_made
        (steps (example_env\<lparr>logging := 0, active_robots := Some [False, True]\<rparr>)
           [([0, 1, 2, 3, 4, 5, 6, 7, 8, 9], example_step_in False)] []))
      = [Process_action 1 [0, 1, 2, 3, 4, 5]]
   \<and> (case steps (example_env\<lparr>logging := 0, active_robots := Some [True, True]\<rparr>)
           [([0, 1, 2, 3, 4, 5, 6, 7, 8, 9], example_step_in True),
            ([0, 1, 2, 3, 4, 5, 6, 7, 8, 9], example_step_in False)] [] of
         Inl err \<Rightarrow> False
       | Inr (e', tr) \<Rightarrow>
           active_robots e' = Some [False, True]
           \<and> \<not> continue_after_success
                 (goals (example_env\<lparr>logging := 0, active_robots := Some [True, True]\<rparr>) ! 0)
           \<and> goal_success (reward_reply (example_step_in True) 0))"
proof -
  let ?a = "[0, 1, 2, 3, 4, 5, 6, 7, 8, 9] :: nat list"
  let ?e1 = "example_env\<lparr>logging := 0, active_robots := Some [False, True]\<rparr>"
  let ?e2 = "example_env\<lparr>logging := 0, active_robots := Some [True, True]\<rparr>"
  have 1: "active_robots ?e1 = Some [False, True]" "0 < length [False, True]"
    "active_robots ?e2 = Some [True, True]" "0 < length [True, True]"
    by simp_all
  have "\<exists>e' tr. steps ?e2 [(?a, example_step_in True), (?a, example_step_in False)] []
      = Inr (e', tr) \<and> active_robots e' = Some [False, True]"
    by (simp add: step_def update_tracking_def example_defs build_info_def get_obs_def Let_def)
  then obtain e' tr where eq: "steps ?e2 [(?a, example_step_in True),
      (?a, example_step_in False)] [] = Inr (e', tr)"
    and act: "active_robots e' = Some [False, True]" by blast
  from robot_stays_inactive [OF 1(3,4), of "[(?a, example_step_in True),
      (?a, example_step_in False)]"] eq act
  have 2: "\<not> continue_after_success (goals ?e2 ! 0)"
    by auto
  have 3: "filter is_process_action (calls_made (steps ?e1 [(?a, example_step_in False)] []))
      = [Process_action 1 [0, 1, 2, 3, 4, 5]]"
    by (simp add: step_def update_tracking_def example_defs build_info_def get_obs_def Let_def
        calls_made_def)
  from robot_stays_inactive [OF 1(1,2), of "[(?a, example_step_in False)]"] 2 3 act
  show ?thesis
    unfolding eq by (simp add: example_step_in_def)
qed

section \<open>Lengths of the stat buffers\<close>

lemma stat_append_length:
  "length (stat_append n stat x) = (if n < length stat + 1 then length stat else length stat + 1)"
  by (simp add: stat_append_def Let_def)

lemma stat_append_min:
  "0 < n \<Longrightarrow> length stat = min (Suc k) n \<Longrightarrow>
   length (stat_append n stat x) = min (Suc (Suc k)) n"
  by (auto simp: stat_append_length min_def)

lemma stat_append_full:
  "length stat = n \<Longrightarrow> 0 < n \<Longrightarrow> stat_append n stat x = tl stat @ [x]"
  by (cases stat) (simp_all add: stat_append_def Let_def)

lemma step_stats:
  assumes "step e action inp = Inr (e', out, tr)"
  shows "stat_buffer_size e' = stat_buffer_size e
    \<and> (\<exists>s t b c.
          success_stat e' = (if out_done out
             then stat_append (stat_buffer_size e) (success_stat e) s else success_stat e)
        \<and> timeout_stat e' = (if out_done out
             then stat_append (stat_buffer_size e) (timeout_stat e) t else timeout_stat e)
        \<and> out_of_bounds_stat e' = (if out_done out
             then stat_append (stat_buffer_size e) (out_of_bounds_stat e) b
             else out_of_bounds_stat e)
        \<and> collision_stat e' = (if out_done out
             then stat_append (stat_buffer_size e) (collision_stat e) c else collision_stat e))"
proof -
  from step_Inr [OF assms] obtain ts tr1 act infos tr2 e2 s l where
    al: "action_loop (active_robots e) (action_space_dims e) action (exec_time inp)
             0 (robots e) 0 [] [World_update] = Inr (ts, tr1)"
    and ut: "update_tracking e (collides inp) act infos = (e2, out_done out, s)"
    and e': "e' = e2\<lparr>log := l\<rparr>"
    by blast
  from ut have e2: "e2 = fst (update_tracking e (collides inp) act infos)"
    and d: "out_done out = fst (snd (update_tracking e (collides inp) act infos))"
    by simp_all
  show ?thesis
    unfolding e' e2 d by (auto simp: update_tracking_proj)
qed

lemma reset_stats:
  assumes "reset e inp = Inr (e', obs_dict, tr)"
  shows "stat_buffer_size e' = stat_buffer_size e \<and> success_stat e' = success_stat e
    \<and> timeout_stat e' = timeout_stat e \<and> out_of_bounds_stat e' = out_of_bounds_stat e
    \<and> collision_stat e' = collision_stat e"
  using assms by (auto simp: reset_def Let_def split: sum.splits prod.splits)

lemma run_stats:
  "run e dones (ops :: ('a, 'v) op list) = Inr (e', dones') \<Longrightarrow> 0 < stat_buffer_size e \<Longrightarrow>
   length (success_stat e) = min (Suc (count_list dones True)) (stat_buffer_size e) \<Longrightarrow>
   length (timeout_stat e) = min (Suc (count_list dones True)) (stat_buffer_size e) \<Longrightarrow>
   length (out_of_bounds_stat e) = min (Suc (count_list dones True)) (stat_buffer_size e) \<Longrightarrow>
   length (collision_stat e) = min (Suc (count_list dones True)) (stat_buffer_size e) \<Longrightarrow>
   stat_buffer_size e' = stat_buffer_size e
   \<and> length (success_stat e') = min (Suc (count_list dones' True)) (stat_buffer_size e)
   \<and> length (timeout_stat e') = min (Suc (count_list dones' True)) (stat_buffer_size e)
   \<and> length (out_of_bounds_stat e') = min (Suc (count_list dones' True)) (stat_buffer_size e)
   \<and> length (collision_stat e') = min (Suc (count_list dones' True)) (stat_buffer_size e)"
proof (induction ops arbitrary: e dones)
  case Nil
  then show ?case by simp
next
  case (Cons op ops)
  show ?case
  proof (cases op)
    case (Reset inp)
    with Cons.prems(1) obtain e1 obs_dict and tr :: "('a, 'v) call list" where
      r: "reset e inp = Inr (e1, obs_dict, tr)" and rest: "run e1 dones ops = Inr (e', dones')"
      by (auto split: sum.splits)
    from reset_stats [OF r] Cons.prems(2-) Cons.IH [OF rest] show ?thesis by simp
  next
    case (Step action inp)
    with Cons.prems(1) obtain e1 out tr where
      st: "step e action inp = Inr (e1, out, tr)"
      and rest: "run e1 (dones @ [out_done out]) ops = Inr (e', dones')"
      by (auto split: sum.splits)
    from step_stats [OF st] obtain s t b c where
      sz: "stat_buffer_size e1 = stat_buffer_size e"
      and 1: "success_stat e1 = (if out_done out
             then stat_append (stat_buffer_size e) (success_stat e) s else success_stat e)"
      and 2: "timeout_stat e1 = (if out_done out
             then stat_append (stat_buffer_size e) (timeout_stat e) t else timeout_stat e)"
      and 3: "out_of_bounds_stat e1 = (if out_done out
             then stat_append (stat_buffer_size e) (out_of_bounds_stat e) b
             else out_of_bounds_stat e)"
      and 4: "collision_stat e1 = (if out_done out
             then stat_append (stat_buffer_size e) (collision_stat e) c else collision_stat e)"
      by blast
    have "length (success_stat e1)
        = min (Suc (count_list (dones @ [out_done out]) True)) (stat_buffer_size e1)"
      "length (timeout_stat e1)
        = min (Suc (count_list (dones @ [out_done out]) True)) (stat_buffer_size e1)"
      "length (out_of_bounds_stat e1)
        = min (Suc (count_list (dones @ [out_done out]) True)) (stat_buffer_size e1)"
      "length (collision_stat e1)
        = min (Suc (count_list (dones @ [out_done out]) True)) (stat_buffer_size e1)"
      unfolding 1 2 3 4 sz using Cons.prems(2-)
      by (simp_all add: stat_append_min)
    from Cons.IH [OF rest _ this] Cons.prems(2) sz show ?thesis by simp
  qed
qed

text \<open>
  Claim C5 fails: the buffers are constructed holding one entry, \<^verbatim>\<open>[False]\<close>, so that
  before any episode the length is 1 where the claim has \<open>min 0 25 = 0\<close>.
\<close>

theorem stat_buffer_initially_one:
  "(case env_init example_config [False, True]
           [example_robot ''ur5_1'', example_robot ''ur5_2'']
           [example_sensor ''joints'' 1, example_sensor ''joints'' 2]
           [example_goal, example_goal] of
      Inl err \<Rightarrow> None
    | Inr e \<Rightarrow> Some (length (success_stat e), min (0 :: nat) (stat_buffer_size e)))
   = Some (1, 0)"
  using example_env_init by (simp add: example_env_def)

text \<open>
  Claim C5, as the code has it. The number of episodes completed is the number of steps that
  returned \<^verbatim>\<open>done\<close>. After any sequence of resets and steps of a constructed environment
  (a call that raises ends the sequence), each of the four buffers has the length
  \<open>min (1 + episodes) 25\<close>: one more than the claim says until the capacity 25 is reached,
  never above it. Appending to a buffer at capacity drops its first, oldest entry.
\<close>

theorem stat_buffer_lengths:
  assumes "env_init config jc rs ss gs = Inr e0" and "run e0 [] ops = Inr (e, dones)"
  shows "stat_buffer_size e = 25
    \<and> length (success_stat e) = min (1 + count_list dones True) (stat_buffer_size e)
    \<and> length (timeout_stat e) = min (1 + count_list dones True) (stat_buffer_size e)
    \<and> length (out_of_bounds_stat e) = min (1 + count_list dones True) (stat_buffer_size e)
    \<and> length (collision_stat e) = min (1 + count_list dones True) (stat_buffer_size e)
    \<and> (\<forall>stat x. length stat = stat_buffer_size e \<longrightarrow>
          stat_append (stat_buffer_size e) stat x = tl stat @ [x])"
proof -
  from assms(1) have 0: "stat_buffer_size e0 = 25" "success_stat e0 = [False]"
    "timeout_stat e0 = [False]" "out_of_bounds_stat e0 = [False]" "collision_stat e0 = [False]"
    by (auto simp: env_init_def Let_def split: sum.splits)
  from run_stats [OF assms(2)] 0 have "stat_buffer_size e = 25"
    "length (success_stat e) = min (1 + count_list dones True) (stat_buffer_size e)"
    "length (timeout_stat e) = min (1 + count_list dones True) (stat_buffer_size e)"
    "length (out_of_bounds_stat e) = min (1 + count_list dones True) (stat_buffer_size e)"
    "length (collision_stat e) = min (1 + count_list dones True) (stat_buffer_size e)"
    by simp_all
  then show ?thesis by (simp add: stat_append_full)
qed

theorem stat_buffer_lengths_witness:
  "env_init example_config [False, True] [example_robot ''ur5_1'', example_robot ''ur5_2'']
     [example_sensor ''joints'' 1, example_sensor ''joints'' 2] [example_goal, example_goal]
   = Inr example_env
   \<and> (case run example_env []
            [Reset (example_reset_in False),
             Step [0, 1, 2, 3, 4, 5, 6, 7, 8, 9] ((example_step_in False)\<lparr>collides := True\<rparr>),
             Reset (example_reset_in False),
             Step [0, 1, 2, 3, 4, 5, 6, 7, 8, 9] (example_step_in False)] of
        Inl err \<Rightarrow> False
      | Inr (e, dones) \<Rightarrow>
          dones = [True, False] \<and> stat_buffer_size e = 25 \<and> length (success_stat e) = 2
          \<and> length (timeout_stat e) = 2 \<and> length (out_of_bounds_stat e) = 2
          \<and> length (collision_stat e) = 2)"
proof -
  let ?ops = "[Reset (example_reset_in False),
             Step [0, 1, 2, 3, 4, 5, 6, 7, 8, 9] ((example_step_in False)\<lparr>collides := True\<rparr>),
             Reset (example_reset_in False),
             Step [0, 1, 2, 3, 4, 5, 6, 7, 8, 9] (example_step_in False)]"
  have "\<exists>e. run example_env [] ?ops = Inr (e, [True, False])"
    by (simp add: reset_def attempt_def step_def update_tracking_def example_defs
        build_info_def get_obs_def Let_def upt_rec)
  then obtain e where eq: "run example_env [] ?ops = Inr (e, [True, False])" by blast
  from stat_buffer_lengths [OF example_env_init eq] example_env_init show ?thesis
    unfolding eq by simp
qed

section \<open>The length of the action vector\<close>

text \<open>
  Claim C3 fails: the action space of the example has 10 entries, and a step with an action
  vector of 5 entries is not rejected. The world is updated, the first robot is handed the
  four entries that its slice finds, the second robot the one entry that is left, and the
  step returns.
\<close>

theorem wrong_length_accepted:
  "length [0, 1, 2, 3, 4 :: nat]
     \<noteq> action_space (example_env\<lparr>logging := 0, active_robots := Some [True, True]\<rparr>)
   \<and> (case step (example_env\<lparr>logging := 0, active_robots := Some [True, True]\<rparr>)
            [0, 1, 2, 3, 4] (example_step_in False) of
        Inl err \<Rightarrow> []
      | Inr (e', out, tr) \<Rightarrow> take 3 tr)
     = [World_update, Process_action 0 [0, 1, 2, 3], Process_action 1 [4]]"
  by (simp add: step_def update_tracking_def example_defs build_info_def get_obs_def Let_def)

text \<open>
  Claim C3, as the code has it. No call of \<^verbatim>\<open>step\<close> is rejected before a plugin is
  invoked: whatever the action vector and its length, whether the step then returns or
  raises, the first call that it makes is \<^verbatim>\<open>World.update()\<close>.
\<close>

theorem step_updates_world_first:
  "\<exists>rest. step_calls (step e action inp) = World_update # rest"
  using step_trace [of e action inp] by blast

end
